theory Spec2Isabelle
  imports Complex_Main "HOL-Library.Word"
begin

unbundle bit_operations_syntax

section \<open>Errors and Python list access\<close>

text \<open>
  The exceptions of the Python source are values.  \<open>ValueError\<close>, \<open>IndexError\<close> and
  \<open>KeyError\<close> are the built-in exceptions the code under \<open>morphic/refinement.py\<close> can raise;
  the remaining constructors are the error kinds the specification names for the mesh classes.
  Parametric coordinates are rationals: the rounding of the grid arithmetic is not modelled.
  The coordinates of physical points are of an arbitrary type \<open>'c\<close>: the refinement code
  only stores them and compares them, as keys of a dictionary, and the comparison is an
  argument of the functions that do so.
\<close>

datatype error =
    ValueError
  | IndexError
  | KeyError
  | ShapeMismatch
  | UnsupportedBasis
  | DuplicateId
  | DimensionMismatch
  | NotGenerated

fun bind :: "error + 'a \<Rightarrow> ('a \<Rightarrow> error + 'b) \<Rightarrow> error + 'b" where
  "bind (Inl e) f = Inl e"
| "bind (Inr x) f = f x"

definition py_index :: "'a list \<Rightarrow> int \<Rightarrow> error + 'a" where
  \<comment> \<open>\<open>xs[i]\<close> on a Python list: a negative index counts from the end.\<close>
  "py_index xs i =
     (let n = int (length xs); j = (if i < 0 then i + n else i)
      in if 0 \<le> j \<and> j < n then Inr (xs ! nat j) else Inl IndexError)"

section \<open>Floats as dictionary keys\<close>

text \<open>
  A \<open>numpy.float64\<close> is its 64 bits: the sign, 11 bits of exponent and 52 bits of fraction.
  The comparison \<open>==\<close> of two floats is false as soon as one of them is a NaN, and otherwise
  true when the bits agree or when both are a zero of either sign.  Equal floats have equal
  hashes, so that \<open>==\<close> alone decides whether two keys of a dictionary are the same key.
\<close>

type_synonym float64 = "64 word"

definition f64_is_nan :: "float64 \<Rightarrow> bool" where
  \<comment> \<open>All exponent bits set and a fraction that is not zero.\<close>
  "f64_is_nan w = (0x7FF0000000000000 < (w AND 0x7FFFFFFFFFFFFFFF))"

definition f64_is_zero :: "float64 \<Rightarrow> bool" where
  \<comment> \<open>\<open>0.0\<close> and \<open>-0.0\<close>: every bit but the sign is clear.\<close>
  "f64_is_zero w = (w AND 0x7FFFFFFFFFFFFFFF = 0)"

definition f64_eq :: "float64 \<Rightarrow> float64 \<Rightarrow> bool" where
  \<comment> \<open>\<open>a == b\<close> on two floats.\<close>
  "f64_eq a b = (\<not> f64_is_nan a \<and> \<not> f64_is_nan b \<and> (a = b \<or> (f64_is_zero a \<and> f64_is_zero b)))"

fun dict_get :: "('k \<Rightarrow> 'k \<Rightarrow> bool) \<Rightarrow> ('k \<times> 'v) list \<Rightarrow> 'k \<Rightarrow> 'v option" where
  \<comment> \<open>The lookup of a key in a dictionary, which is an association list in insertion order:
      the entry whose key compares equal to the key looked up.  The first argument is the
      comparison of two keys.\<close>
  "dict_get keq [] k = None"
| "dict_get keq ((k', v) # rest) k = (if keq k' k then Some v else dict_get keq rest k)"

section \<open>refinement.py: local node counts and the canonical xi grid\<close>

definition get_num_elem_nodes :: "string list \<Rightarrow> error + int list" where
  "get_num_elem_nodes basis =
     (if basis = [''L1'', ''L1'', ''L1''] then Inr [2, 2, 2]
      else if basis = [''L2'', ''L2'', ''L2''] then Inr [3, 3, 3]
      else if basis = [''L3'', ''L3'', ''L3''] then Inr [4, 4, 4]
      else Inl ValueError)"

definition linspace :: "rat \<Rightarrow> rat \<Rightarrow> int \<Rightarrow> error + rat list" where
  \<comment> \<open>\<open>numpy.linspace(start, stop, num)\<close> with the endpoint included: \<open>arange(num) * step + start\<close>,
      the last sample set to \<open>stop\<close>; a single sample is \<open>start\<close>; a negative count is refused.\<close>
  "linspace start stop num =
     (if num < 0 then Inl ValueError
      else let d = num - 1; delta = stop - start
           in Inr (map (\<lambda>i. if 1 < num \<and> int i = d then stop
                              else if 0 < d then rat_of_nat i * (delta / rat_of_int d) + start
                              else rat_of_nat i * delta + start)
                       [0..<nat num]))"

definition meshgrid2 :: "'a list \<Rightarrow> 'a list \<Rightarrow> 'a list list \<times> 'a list list" where
  \<comment> \<open>\<open>numpy.meshgrid(x, y)\<close>, Cartesian indexing: both results have shape \<open>(len y, len x)\<close>.\<close>
  "meshgrid2 x y = (map (\<lambda>yi. map (\<lambda>xj. xj) x) y, map (\<lambda>yi. map (\<lambda>xj. yi) x) y)"

definition meshgrid3 ::
  "'a list \<Rightarrow> 'a list \<Rightarrow> 'a list \<Rightarrow> 'a list list list \<times> 'a list list list \<times> 'a list list list" where
  \<comment> \<open>\<open>numpy.meshgrid(x, y, z)\<close>, Cartesian indexing: the results have shape
      \<open>(len y, len x, len z)\<close>.\<close>
  "meshgrid3 x y z =
     (map (\<lambda>yi. map (\<lambda>xj. map (\<lambda>zk. xj) z) x) y,
      map (\<lambda>yi. map (\<lambda>xj. map (\<lambda>zk. yi) z) x) y,
      map (\<lambda>yi. map (\<lambda>xj. map (\<lambda>zk. zk) z) x) y)"

definition reshape2 :: "'a list list \<Rightarrow> 'a list" where
  \<comment> \<open>\<open>A.reshape(A.size)\<close> of a two-dimensional array: row-major flattening.\<close>
  "reshape2 A = concat A"

definition reshape3 :: "'a list list list \<Rightarrow> 'a list" where
  \<comment> \<open>\<open>A.reshape(A.size)\<close> of a three-dimensional array: row-major flattening.\<close>
  "reshape3 A = concat (concat A)"

definition generate_xi_grid :: "int list \<Rightarrow> int \<Rightarrow> error + rat list list" where
  \<comment> \<open>\<open>numpy.array([...]).T\<close> of equally long rows is \<open>transpose\<close>.\<close>
  "generate_xi_grid num_points dimension =
     bind (py_index num_points 0) (\<lambda>n0.
     bind (linspace 0 1 n0) (\<lambda>xi1.
     bind (py_index num_points 1) (\<lambda>n1.
     bind (linspace 0 1 n1) (\<lambda>xi2.
       if dimension = 2 then
         (case meshgrid2 xi1 xi2 of (X, Y) \<Rightarrow>
            Inr (transpose [reshape2 X, reshape2 Y]))
       else
         bind (py_index num_points 2) (\<lambda>n2.
         bind (linspace 0 1 n2) (\<lambda>xi3.
           (case meshgrid3 xi1 xi2 xi3 of (X, Y, Z) \<Rightarrow>
              Inr (transpose [reshape3 Z, reshape3 X, reshape3 Y]))))))))"

definition generate_xi_grid_fem :: "int list \<Rightarrow> int \<Rightarrow> error + rat list list" where
  \<comment> \<open>\<open>fields.py\<close>: the same body as \<open>generate_xi_grid\<close>.\<close>
  "generate_xi_grid_fem num_points dimension =
     bind (py_index num_points 0) (\<lambda>n0.
     bind (linspace 0 1 n0) (\<lambda>xi1.
     bind (py_index num_points 1) (\<lambda>n1.
     bind (linspace 0 1 n1) (\<lambda>xi2.
       if dimension = 2 then
         (case meshgrid2 xi1 xi2 of (X, Y) \<Rightarrow>
            Inr (transpose [reshape2 X, reshape2 Y]))
       else
         bind (py_index num_points 2) (\<lambda>n2.
         bind (linspace 0 1 n2) (\<lambda>xi3.
           (case meshgrid3 xi1 xi2 xi3 of (X, Y, Z) \<Rightarrow>
              Inr (transpose [reshape3 Z, reshape3 X, reshape3 Y]))))))))"

section \<open>The mesh: coefficient store, nodes and elements\<close>

text \<open>
  \<open>morphic/mesher.py\<close> and \<open>morphic/core.py\<close> are not among the sources; the refinement code
  and the tests only call them.  The definitions of this section are the mesh operations as
  the specification describes them.  An array is its shape with its row-major data.
\<close>

type_synonym 'c ndarray = "nat list \<times> 'c list"

record node =
  nid :: int
  ngroup :: string
  nshape :: "nat list"
  noffset :: nat

record element =
  eid :: int
  ebasis :: "string list"
  enodes :: "int list"

record 'c mesh =
  P :: "'c list"
  nodes :: "node list"
  elements :: "element list"
  generated :: bool

definition size_of :: "nat list \<Rightarrow> nat" where
  \<comment> \<open>The total element count of a shape.\<close>
  "size_of shp = prod_list shp"

definition wf_array :: "'c ndarray \<Rightarrow> bool" where
  \<comment> \<open>The data of an array has as many elements as its shape says.\<close>
  "wf_array a = (length (snd a) = size_of (fst a))"

definition Mesh :: "'c mesh" where
  \<comment> \<open>Modelled from the spec: the constructor \<open>Mesh()\<close> of mesher.py, an empty store and no nodes
      or elements, not yet generated.\<close>
  "Mesh = \<lparr>P = [], nodes = [], elements = [], generated = False\<rparr>"

definition add_stdnode :: "'c mesh \<Rightarrow> int \<Rightarrow> 'c ndarray \<Rightarrow> string \<Rightarrow> error + 'c mesh" where
  \<comment> \<open>Modelled from the spec: \<open>Mesh.add_stdnode\<close> of mesher.py.  It registers a node and reserves
      the next region of the store for its values; a used id fails with DuplicateId.\<close>
  "add_stdnode m uid vals grp =
     (if uid \<in> set (map nid (nodes m)) then Inl DuplicateId
      else if \<not> wf_array vals then Inl ShapeMismatch
      else Inr (m\<lparr>P := P m @ snd vals,
                  nodes := nodes m @
                    [\<lparr>nid = uid, ngroup = grp, nshape = fst vals, noffset = length (P m)\<rparr>]\<rparr>))"

definition node_values :: "'c mesh \<Rightarrow> node \<Rightarrow> 'c ndarray" where
  \<comment> \<open>Modelled from the spec: reading \<open>node.values\<close> (mesher.py) reads the node's region of the
      store through the node's shape.\<close>
  "node_values m n = (nshape n, take (size_of (nshape n)) (drop (noffset n) (P m)))"



datatype axis_index = Index int | Slice "int option" "int option"

definition clamp_index :: "nat \<Rightarrow> int \<Rightarrow> nat" where
  \<comment> \<open>Modelled from the spec: a slice bound of a partial-slice write (mesher.py) on an axis
      of length \<open>n\<close>; negative bounds count from the end, and the result is clipped to
      \<open>0..n\<close>.\<close>
  "clamp_index n i = (let j = (if i < 0 then i + int n else i) in nat (max 0 (min (int n) j)))"

definition resolve_axis :: "nat \<Rightarrow> axis_index \<Rightarrow> error + nat list" where
  \<comment> \<open>Modelled from the spec: the positions that one index expression of a partial-slice
      write (mesher.py) selects on an axis of length \<open>n\<close>.\<close>
  "resolve_axis n a =
     (case a of
        Index i \<Rightarrow>
          (let j = (if i < 0 then i + int n else i)
           in if 0 \<le> j \<and> j < int n then Inr [nat j] else Inl IndexError)
      | Slice lo hi \<Rightarrow>
          Inr [(case lo of None \<Rightarrow> 0 | Some l \<Rightarrow> clamp_index n l)
               ..< (case hi of None \<Rightarrow> n | Some h \<Rightarrow> clamp_index n h)])"

fun slice_cells :: "nat list \<Rightarrow> axis_index list \<Rightarrow> error + nat list" where
  \<comment> \<open>Modelled from the spec: the cells a partial-slice write (mesher.py) addresses, as
      row-major positions inside an array of the given shape; the index expression has one
      entry per leading axis, and axes without an entry are taken whole.\<close>
  "slice_cells [] [] = Inr [0]"
| "slice_cells [] (a # as) = Inl IndexError"
| "slice_cells (d # ds) [] =
     bind (slice_cells ds []) (\<lambda>sub.
       Inr (concat (map (\<lambda>r. map (\<lambda>c. r * size_of ds + c) sub) [0..<d])))"
| "slice_cells (d # ds) (a # as) =
     bind (resolve_axis d a) (\<lambda>rows.
     bind (slice_cells ds as) (\<lambda>sub.
       Inr (concat (map (\<lambda>r. map (\<lambda>c. r * size_of ds + c) sub) rows))))"

definition write_cells :: "'c list \<Rightarrow> nat \<Rightarrow> nat list \<Rightarrow> 'c list \<Rightarrow> 'c list" where
  \<comment> \<open>Modelled from the spec: the store after the values are written, one by one, to the
      addressed cells of the region at offset \<open>off\<close> (core.py).\<close>
  "write_cells st off cells vs = fold (\<lambda>(c, v) s. s[off + c := v]) (zip cells vs) st"

definition set_slice :: "'c mesh \<Rightarrow> node \<Rightarrow> axis_index list \<Rightarrow> 'c list \<Rightarrow> error + 'c mesh" where
  \<comment> \<open>Modelled from the spec: the assignment \<open>node.values[index] = x\<close> (mesher.py), a partial-slice
      write.  A single value is broadcast over the selected cells; otherwise one value is needed
      for every selected cell.\<close>
  "set_slice m n idx vs =
     bind (slice_cells (nshape n) idx) (\<lambda>cells.
       let data = (if length vs = 1 then replicate (length cells) (hd vs) else vs)
       in if length data \<noteq> length cells then Inl ShapeMismatch
          else Inr (m\<lparr>P := write_cells (P m) (noffset n) cells data\<rparr>))"

definition local_node_count :: "string \<Rightarrow> error + nat" where
  \<comment> \<open>Modelled from the spec: \<open>local_node_count(order)\<close>, 2, 3 and 4 nodes for the Lagrange
      bases of order 1, 2 and 3.\<close>
  "local_node_count b =
     (if b = ''L1'' then Inr 2 else if b = ''L2'' then Inr 3 else if b = ''L3'' then Inr 4
      else Inl UnsupportedBasis)"

fun basis_counts :: "string list \<Rightarrow> error + nat list" where
  \<comment> \<open>Modelled from the spec: the local node counts of a basis descriptor, axis by axis.\<close>
  "basis_counts [] = Inr []"
| "basis_counts (b # bs) =
     bind (local_node_count b) (\<lambda>n. bind (basis_counts bs) (\<lambda>ns. Inr (n # ns)))"

definition add_element :: "'c mesh \<Rightarrow> int \<Rightarrow> string list \<Rightarrow> int list \<Rightarrow> error + 'c mesh" where
  \<comment> \<open>Modelled from the spec: \<open>Mesh.add_element\<close> of mesher.py.  The node list must have one entry
      per local node of the basis.\<close>
  "add_element m uid bs nids =
     bind (basis_counts bs) (\<lambda>counts.
       if length nids \<noteq> prod_list counts then Inl ShapeMismatch
       else if uid \<in> set (map eid (elements m)) then Inl DuplicateId
       else Inr (m\<lparr>elements := elements m @ [\<lparr>eid = uid, ebasis = bs, enodes = nids\<rparr>]\<rparr>))"

definition generate :: "'c mesh \<Rightarrow> bool \<Rightarrow> 'c mesh" where
  \<comment> \<open>Modelled from the spec: \<open>Mesh.generate\<close> of mesher.py sets the generated flag.\<close>
  "generate m finalize = m\<lparr>generated := True\<rparr>"

definition weight :: "nat \<Rightarrow> nat \<Rightarrow> rat \<Rightarrow> rat" where
  \<comment> \<open>Modelled from the spec: \<open>weight(order, local_index, xi)\<close>, the Lagrange polynomial on the
      equally spaced positions \<open>k / order\<close>.\<close>
  "weight ord i xi =
     prod_list (map (\<lambda>k. (xi - rat_of_nat k / rat_of_nat ord) /
                           (rat_of_nat i / rat_of_nat ord - rat_of_nat k / rat_of_nat ord))
                    (filter (\<lambda>k. k \<noteq> i) [0..<Suc ord]))"

fun tensor_weights :: "nat list \<Rightarrow> rat list \<Rightarrow> rat list" where
  \<comment> \<open>Modelled from the spec: the tensor-product weights of all local nodes, the first axis
      varying fastest.\<close>
  "tensor_weights [] xis = [1]"
| "tensor_weights (n # ns) [] = []"
| "tensor_weights (n # ns) (x # xs) =
     concat (map (\<lambda>w. map (\<lambda>i. weight (n - 1) i x * w) [0..<n]) (tensor_weights ns xs))"

fun find_nodes :: "'c mesh \<Rightarrow> int list \<Rightarrow> error + node list" where
  \<comment> \<open>Modelled from the spec: the nodes an element references by id, looked up in the mesh
      (mesher.py).\<close>
  "find_nodes m [] = Inr []"
| "find_nodes m (i # is) =
     (case find (\<lambda>n. nid n = i) (nodes m) of
        None \<Rightarrow> Inl KeyError
      | Some n \<Rightarrow> bind (find_nodes m is) (\<lambda>ns. Inr (n # ns)))"

definition evaluate :: "rat mesh \<Rightarrow> element \<Rightarrow> rat list list \<Rightarrow> error + rat list list" where
  \<comment> \<open>Modelled from the spec: \<open>Element.evaluate(xi_points)\<close> of mesher.py.  Every row of
      \<open>xi_points\<close> gives the weighted sum of the values of the element's nodes.\<close>
  "evaluate m e xi_points =
     (if \<not> generated m then Inl NotGenerated
      else bind (basis_counts (ebasis e)) (\<lambda>counts.
           bind (find_nodes m (enodes e)) (\<lambda>ns.
             if \<exists>row \<in> set xi_points. length row \<noteq> length counts then Inl DimensionMismatch
             else Inr (map (\<lambda>row.
                         map (\<lambda>col. sum_list (map (\<lambda>(w, a). w * a) (zip (tensor_weights counts row) col)))
                             (transpose (map (\<lambda>n. snd (node_values m n)) ns)))
                       xi_points))))"

section \<open>refinement.py: building the refined mesh\<close>

fun add_nodes :: "'c mesh \<Rightarrow> (nat \<times> 'c list) list \<Rightarrow> error + 'c mesh" where
  \<comment> \<open>\<open>for node_id, value in enumerate(xn): mesh.add_stdnode(node_id + 1, value, group='_default')\<close>\<close>
  "add_nodes m [] = Inr m"
| "add_nodes m ((node_id, val) # rest) =
     bind (add_stdnode m (int node_id + 1) ([length val], val) ''_default'') (\<lambda>m'.
       add_nodes m' rest)"

fun add_elements ::
  "'c mesh \<Rightarrow> string list \<Rightarrow> nat list list \<Rightarrow> (nat \<times> nat list) list \<Rightarrow> error + 'c mesh" where
  \<comment> \<open>\<open>for element_id, element in enumerate(xe):
        mesh.add_element(element_id + 1, basis, xe[element_id] + 1)\<close>\<close>
  "add_elements m basis xe [] = Inr m"
| "add_elements m basis xe ((element_id, elem) # rest) =
     bind (add_element m (int element_id + 1) basis (map (\<lambda>i. int i + 1) (xe ! element_id)))
       (\<lambda>m'. add_elements m' basis xe rest)"

definition create_morphic_mesh ::
  "string list \<Rightarrow> 'c list list \<Rightarrow> nat list list \<Rightarrow> error + 'c mesh" where
  "create_morphic_mesh basis xn xe =
     bind (add_nodes Mesh (enumerate 0 xn)) (\<lambda>m1.
     bind (add_elements m1 basis xe (enumerate 0 xe)) (\<lambda>m2.
       Inr (generate m2 True)))"

section \<open>refinement.py: partitions, evaluation and point deduplication\<close>

definition elem_partitions :: "int \<Rightarrow> (rat \<times> rat) list" where
  \<comment> \<open>\<open>[(n / fac, (n + 1) / fac) for n in range(fac)]\<close>\<close>
  "elem_partitions fac =
     map (\<lambda>n. (rat_of_int n / rat_of_int fac, rat_of_int (n + 1) / rat_of_int fac)) [0..fac - 1]"

definition column :: "rat list list \<Rightarrow> nat \<Rightarrow> rat list" where
  \<comment> \<open>\<open>xi_grid[:, i]\<close>\<close>
  "column xi_grid i = map (\<lambda>row. row ! i) xi_grid"

definition remap :: "rat list \<Rightarrow> rat \<times> rat \<Rightarrow> rat list" where
  \<comment> \<open>\<open>col * (b[1] - b[0]) + b[0]\<close>\<close>
  "remap col b = map (\<lambda>x. x * (snd b - fst b) + fst b) col"

definition xi_partitions_xi1 :: "rat list list \<Rightarrow> (rat \<times> rat) list \<Rightarrow> rat list list list" where
  "xi_partitions_xi1 xi_grid elem_parts =
     map (\<lambda>b. transpose [remap (column xi_grid 0) b, column xi_grid 1, column xi_grid 2])
         elem_parts"

definition xi_partitions_xi2 :: "rat list list \<Rightarrow> (rat \<times> rat) list \<Rightarrow> rat list list list" where
  "xi_partitions_xi2 xi_grid elem_parts =
     map (\<lambda>b. transpose [column xi_grid 0, remap (column xi_grid 1) b, column xi_grid 2])
         elem_parts"

definition xi_partitions_xi3 :: "rat list list \<Rightarrow> (rat \<times> rat) list \<Rightarrow> rat list list list" where
  "xi_partitions_xi3 xi_grid elem_parts =
     map (\<lambda>b. transpose [column xi_grid 0, column xi_grid 1, remap (column xi_grid 2) b])
         elem_parts"

definition xi_partitions_full ::
  "rat list list \<Rightarrow> (rat \<times> rat) list \<Rightarrow> (rat \<times> rat) list \<Rightarrow> (rat \<times> rat) list
     \<Rightarrow> rat list list list" where
  \<comment> \<open>The three nested loops that append to \<open>xi_partitions\<close>.\<close>
  "xi_partitions_full xi_grid parts1 parts2 parts3 =
     concat (map (\<lambda>xi1_part.
       concat (map (\<lambda>xi2_part.
         map (\<lambda>xi3_part.
           transpose [remap (column xi_grid 0) xi1_part,
                      remap (column xi_grid 1) xi2_part,
                      remap (column xi_grid 2) xi3_part])
           parts3)
         parts2))
       parts1)"

type_synonym 'c point_dict = "('c list \<times> nat) list"

fun node_loop ::
  "('c list \<Rightarrow> 'c list \<Rightarrow> bool) \<Rightarrow> 'c point_dict \<Rightarrow> nat list \<Rightarrow> 'c list list
     \<Rightarrow> error + 'c point_dict \<times> nat list" where
  \<comment> \<open>\<open>for node in new_elem_nodes\<close>: the dictionary \<open>mapping\<close> is an association list in
      insertion order, \<open>elem_node_ids\<close> is the third argument, and the first argument is the
      comparison of two keys \<open>tuple(node)\<close>.  The test \<open>tuple(node) not in mapping\<close> and the
      subscript \<open>mapping[tuple(node)]\<close> are lookups; the subscript raises KeyError when no key
      compares equal.\<close>
  "node_loop keq mapping elem_node_ids [] = Inr (mapping, elem_node_ids)"
| "node_loop keq mapping elem_node_ids (nd # rest) =
     (let mapping' = (if dict_get keq mapping nd = None then mapping @ [(nd, length mapping)]
                      else mapping)
      in case dict_get keq mapping' nd of
           None \<Rightarrow> Inl KeyError
         | Some i \<Rightarrow> node_loop keq mapping' (elem_node_ids @ [i]) rest)"

fun part_loop ::
  "('c list \<Rightarrow> 'c list \<Rightarrow> bool) \<Rightarrow> (rat list list \<Rightarrow> error + 'c list list) \<Rightarrow> 'c point_dict
     \<Rightarrow> nat list list \<Rightarrow> rat list list list \<Rightarrow> error + 'c point_dict \<times> nat list list" where
  \<comment> \<open>\<open>for xi_part in xi_partitions\<close>, for one element, whose \<open>evaluate\<close> is the second
      argument.\<close>
  "part_loop keq elem_evaluate mapping refined_xe [] = Inr (mapping, refined_xe)"
| "part_loop keq elem_evaluate mapping refined_xe (xi_part # rest) =
     bind (elem_evaluate xi_part) (\<lambda>new_elem_nodes.
     bind (node_loop keq mapping [] new_elem_nodes) (\<lambda>(mapping', elem_node_ids).
       part_loop keq elem_evaluate mapping' (refined_xe @ [elem_node_ids]) rest))"

fun elem_loop ::
  "('c list \<Rightarrow> 'c list \<Rightarrow> bool) \<Rightarrow> ('e \<Rightarrow> rat list list \<Rightarrow> error + 'c list list)
     \<Rightarrow> 'c point_dict \<Rightarrow> nat list list \<Rightarrow> rat list list list \<Rightarrow> 'e list
     \<Rightarrow> error + 'c point_dict \<times> nat list list" where
  \<comment> \<open>\<open>for elem_idx, elem in enumerate(mesh.elements)\<close>\<close>
  "elem_loop keq ev mapping refined_xe xi_partitions [] = Inr (mapping, refined_xe)"
| "elem_loop keq ev mapping refined_xe xi_partitions (elem # rest) =
     bind (part_loop keq (ev elem) mapping refined_xe xi_partitions) (\<lambda>(mapping', refined_xe').
       elem_loop keq ev mapping' refined_xe' xi_partitions rest)"

text \<open>
  The four refinement functions.  Their first argument \<open>ceq\<close> is the comparison \<open>==\<close> of two
  coordinates: two keys of the dictionary, which are tuples of coordinates, are the same key
  when they are equally long and their coordinates compare equal one by one.  With \<open>f64_eq\<close>
  the coordinates are floats, as in the source; with \<open>(=)\<close> they are compared exactly, which
  is the comparison of numbers without rounding, signed zeros or NaN.
  \<open>Element.evaluate\<close> is not among the sources: the functions take it as the argument \<open>ev\<close>,
  applied to the source mesh and one of its elements.
\<close>

definition mesh_refine_along_xi1 ::
  "('c \<Rightarrow> 'c \<Rightarrow> bool) \<Rightarrow> ('c mesh \<Rightarrow> element \<Rightarrow> rat list list \<Rightarrow> error + 'c list list) \<Rightarrow> 'c mesh
     \<Rightarrow> string list \<Rightarrow> int \<Rightarrow> error + 'c mesh \<times> 'c list list \<times> nat list list" where
  "mesh_refine_along_xi1 ceq ev mesh basis fac =
     bind (get_num_elem_nodes basis) (\<lambda>num_elem_nodes.
     bind (generate_xi_grid num_elem_nodes 3) (\<lambda>xi_grid.
       let xi_partitions = xi_partitions_xi1 xi_grid (elem_partitions fac)
       in bind (elem_loop (list_all2 ceq) (ev mesh) [] [] xi_partitions (elements mesh))
            (\<lambda>(mapping, refined_xe).
               let refined_xn = map fst mapping
               in bind (create_morphic_mesh basis refined_xn refined_xe) (\<lambda>refined_mesh.
                    Inr (refined_mesh, refined_xn, refined_xe)))))"

definition mesh_refine_along_xi2 ::
  "('c \<Rightarrow> 'c \<Rightarrow> bool) \<Rightarrow> ('c mesh \<Rightarrow> element \<Rightarrow> rat list list \<Rightarrow> error + 'c list list) \<Rightarrow> 'c mesh
     \<Rightarrow> string list \<Rightarrow> int \<Rightarrow> error + 'c mesh \<times> 'c list list \<times> nat list list" where
  "mesh_refine_along_xi2 ceq ev mesh basis fac =
     bind (get_num_elem_nodes basis) (\<lambda>num_elem_nodes.
     bind (generate_xi_grid num_elem_nodes 3) (\<lambda>xi_grid.
       let xi_partitions = xi_partitions_xi2 xi_grid (elem_partitions fac)
       in bind (elem_loop (list_all2 ceq) (ev mesh) [] [] xi_partitions (elements mesh))
            (\<lambda>(mapping, refined_xe).
               let refined_xn = map fst mapping
               in bind (create_morphic_mesh basis refined_xn refined_xe) (\<lambda>refined_mesh.
                    Inr (refined_mesh, refined_xn, refined_xe)))))"

definition mesh_refine_along_xi3 ::
  "('c \<Rightarrow> 'c \<Rightarrow> bool) \<Rightarrow> ('c mesh \<Rightarrow> element \<Rightarrow> rat list list \<Rightarrow> error + 'c list list) \<Rightarrow> 'c mesh
     \<Rightarrow> string list \<Rightarrow> int \<Rightarrow> error + 'c mesh \<times> 'c list list \<times> nat list list" where
  "mesh_refine_along_xi3 ceq ev mesh basis fac =
     bind (get_num_elem_nodes basis) (\<lambda>num_elem_nodes.
     bind (generate_xi_grid num_elem_nodes 3) (\<lambda>xi_grid.
       let xi_partitions = xi_partitions_xi3 xi_grid (elem_partitions fac)
       in bind (elem_loop (list_all2 ceq) (ev mesh) [] [] xi_partitions (elements mesh))
            (\<lambda>(mapping, refined_xe).
               let refined_xn = map fst mapping
               in bind (create_morphic_mesh basis refined_xn refined_xe) (\<lambda>refined_mesh.
                    Inr (refined_mesh, refined_xn, refined_xe)))))"

definition full_refinement ::
  "('c \<Rightarrow> 'c \<Rightarrow> bool) \<Rightarrow> ('c mesh \<Rightarrow> element \<Rightarrow> rat list list \<Rightarrow> error + 'c list list) \<Rightarrow> 'c mesh
     \<Rightarrow> string list \<Rightarrow> int list \<Rightarrow> error + 'c mesh \<times> 'c list list \<times> nat list list" where
  "full_refinement ceq ev mesh basis facs =
     bind (get_num_elem_nodes basis) (\<lambda>num_elem_nodes.
     bind (generate_xi_grid num_elem_nodes 3) (\<lambda>xi_grid.
     bind (py_index facs 0) (\<lambda>fac1.
     bind (py_index facs 1) (\<lambda>fac2.
     bind (py_index facs 2) (\<lambda>fac3.
       let xi_partitions = xi_partitions_full xi_grid
             (elem_partitions fac1) (elem_partitions fac2) (elem_partitions fac3)
       in bind (elem_loop (list_all2 ceq) (ev mesh) [] [] xi_partitions (elements mesh))
            (\<lambda>(mapping, refined_xe).
               let refined_xn = map fst mapping
               in bind (create_morphic_mesh basis refined_xn refined_xe) (\<lambda>refined_mesh.
                    Inr (refined_mesh, refined_xn, refined_xe))))))))"

section \<open>Descriptions used in the statements\<close>

definition grid_row :: "nat \<Rightarrow> nat \<Rightarrow> rat list" where
  \<comment> \<open>Row \<open>r\<close> of the grid with \<open>n\<close> samples per axis: the first coordinate varies fastest.\<close>
  "grid_row n r = [rat_of_nat (r mod n) / rat_of_nat (n - 1),
                   rat_of_nat ((r div n) mod n) / rat_of_nat (n - 1),
                   rat_of_nat (r div (n * n)) / rat_of_nat (n - 1)]"

fun first_seen_from :: "'a list \<Rightarrow> 'a list \<Rightarrow> 'a list" where
  \<comment> \<open>The values already seen, followed by the new values of the second list in the order of
      their first occurrence.\<close>
  "first_seen_from seen [] = seen"
| "first_seen_from seen (x # xs) =
     first_seen_from (if x \<in> set seen then seen else seen @ [x]) xs"

definition first_seen :: "'a list \<Rightarrow> 'a list" where
  "first_seen xs = first_seen_from [] xs"

definition index_of :: "'a list \<Rightarrow> 'a \<Rightarrow> nat" where
  \<comment> \<open>The position of the first occurrence of a value in a list.\<close>
  "index_of xs x = length (takeWhile (\<lambda>y. y \<noteq> x) xs)"

fun first_seen_by :: "('a \<Rightarrow> 'a \<Rightarrow> bool) \<Rightarrow> 'a list \<Rightarrow> 'a list \<Rightarrow> 'a list" where
  \<comment> \<open>The same with a comparison of two values as the first argument: a value is new when no
      value seen before compares equal to it.\<close>
  "first_seen_by keq seen [] = seen"
| "first_seen_by keq seen (x # xs) =
     first_seen_by keq (if \<exists>y \<in> set seen. keq y x then seen else seen @ [x]) xs"

definition index_by :: "('a \<Rightarrow> 'a \<Rightarrow> bool) \<Rightarrow> 'a list \<Rightarrow> 'a \<Rightarrow> nat" where
  \<comment> \<open>The position of the first entry of a list that compares equal to a value.\<close>
  "index_by keq xs x = length (takeWhile (\<lambda>y. \<not> keq y x) xs)"

definition enum_dict :: "'c list list \<Rightarrow> 'c point_dict" where
  \<comment> \<open>The dictionary that maps the keys, in insertion order, to \<open>0, 1, 2, ...\<close>\<close>
  "enum_dict ks = zip ks [0..<length ks]"

definition evaluated_rows ::
  "(element \<Rightarrow> rat list list \<Rightarrow> 'c list list) \<Rightarrow> element list \<Rightarrow> rat list list list
     \<Rightarrow> 'c list list list" where
  \<comment> \<open>The evaluated points of every (element, partition) pair, elements outermost.\<close>
  "evaluated_rows pts elems xi_partitions = concat (map (\<lambda>e. map (pts e) xi_partitions) elems)"

definition evaluates ::
  "(element \<Rightarrow> rat list list \<Rightarrow> error + 'c list list) \<Rightarrow> element list \<Rightarrow> rat list list list
     \<Rightarrow> (element \<Rightarrow> rat list list \<Rightarrow> 'c list list) \<Rightarrow> bool" where
  \<comment> \<open>Every evaluation the refinement performs succeeds, with the points \<open>pts e p\<close>.\<close>
  "evaluates ev elems xi_partitions pts =
     (\<forall>e \<in> set elems. \<forall>p \<in> set xi_partitions. ev e p = Inr (pts e p))"

definition dedup_result :: "'c list list list \<Rightarrow> 'c list list \<Rightarrow> nat list list \<Rightarrow> bool" where
  \<comment> \<open>The node array lists the distinct evaluated points in first-seen order, the connectivity
      holds the position of every evaluated point in it, and two evaluated points share a
      position exactly when they are equal.\<close>
  "dedup_result rows xn xe =
     (xn = first_seen (concat rows) \<and>
      distinct xn \<and>
      xe = map (map (index_of xn)) rows \<and>
      (\<forall>p \<in> set (concat rows). index_of xn p < length xn \<and> xn ! index_of xn p = p) \<and>
      (\<forall>p \<in> set (concat rows). \<forall>q \<in> set (concat rows).
         (index_of xn p = index_of xn q) = (p = q)))"

definition dedup_result_by ::
  "('c list \<Rightarrow> 'c list \<Rightarrow> bool) \<Rightarrow> 'c list list list \<Rightarrow> 'c list list \<Rightarrow> nat list list \<Rightarrow> bool" where
  \<comment> \<open>The same for keys under a comparison \<open>keq\<close>: the node array holds the evaluated points
      that compared equal to no point met before, in the order in which they were met; no two
      of its rows compare equal; the connectivity holds, for every evaluated point, the
      position of the row that compares equal to it; and two evaluated points share a position
      exactly when they compare equal.\<close>
  "dedup_result_by keq rows xn xe =
     (xn = first_seen_by keq [] (concat rows) \<and>
      set xn \<subseteq> set (concat rows) \<and>
      (\<forall>i < length xn. \<forall>j < length xn. keq (xn ! i) (xn ! j) \<longrightarrow> i = j) \<and>
      xe = map (map (index_by keq xn)) rows \<and>
      (\<forall>p \<in> set (concat rows). index_by keq xn p < length xn \<and> keq (xn ! index_by keq xn p) p) \<and>
      (\<forall>p \<in> set (concat rows). \<forall>q \<in> set (concat rows).
         (index_by keq xn p = index_by keq xn q) = keq p q))"

definition nan_free :: "float64 list list list \<Rightarrow> bool" where
  \<comment> \<open>No coordinate of an evaluated point is a NaN.\<close>
  "nan_free rows = (\<forall>p \<in> set (concat rows). \<forall>c \<in> set p. \<not> f64_is_nan c)"

definition affine :: "rat \<times> rat \<Rightarrow> rat \<Rightarrow> rat" where
  \<comment> \<open>The affine map of \<open>[0, 1]\<close> onto the sub-interval \<open>b = (lo, hi)\<close>.\<close>
  "affine b x = x * (snd b - fst b) + fst b"

fun refined_nodes :: "nat \<Rightarrow> nat \<Rightarrow> 'c list list \<Rightarrow> node list" where
  \<comment> \<open>The nodes that hold the given points in consecutive regions of the store from offset
      \<open>off\<close>, the point at position \<open>k\<close> under the id \<open>k + 1\<close>.\<close>
  "refined_nodes off k [] = []"
| "refined_nodes off k (p # ps) =
     \<lparr>nid = int k + 1, ngroup = ''_default'', nshape = [length p], noffset = off\<rparr>
       # refined_nodes (off + length p) (Suc k) ps"

definition refined_element :: "string list \<Rightarrow> nat \<times> nat list \<Rightarrow> element" where
  \<comment> \<open>The element made from row \<open>k\<close> of the connectivity array: id \<open>k + 1\<close>, every node
      index shifted by one.\<close>
  "refined_element basis kr =
     \<lparr>eid = int (fst kr) + 1, ebasis = basis, enodes = map (\<lambda>j. int j + 1) (snd kr)\<rparr>"

definition assemble ::
  "string list \<Rightarrow> error + 'c point_dict \<times> nat list list
     \<Rightarrow> error + 'c mesh \<times> 'c list list \<times> nat list list" where
  \<comment> \<open>The common end of the four refinement functions, after the loops: the node array is
      \<open>mapping.keys()\<close>, and the new mesh is built from it and the connectivity.\<close>
  "assemble basis loops =
     bind loops (\<lambda>(mapping, refined_xe).
       let refined_xn = map fst mapping
       in bind (create_morphic_mesh basis refined_xn refined_xe) (\<lambda>refined_mesh.
            Inr (refined_mesh, refined_xn, refined_xe)))"

definition returned_points ::
  "('c mesh \<Rightarrow> element \<Rightarrow> rat list list \<Rightarrow> error + 'c list list) \<Rightarrow> 'c mesh
     \<Rightarrow> element \<Rightarrow> rat list list \<Rightarrow> 'c list list" where
  \<comment> \<open>The points a successful evaluation returned.\<close>
  "returned_points ev mesh e p = projr (ev mesh e p)"

definition refined_mesh :: "string list \<Rightarrow> 'c list list \<Rightarrow> nat list list \<Rightarrow> 'c mesh" where
  \<comment> \<open>The mesh with one node per row of \<open>xn\<close> and one element per row of \<open>xe\<close>, ids counted
      from 1, generated.\<close>
  "refined_mesh basis xn xe =
     \<lparr>P = concat xn, nodes = refined_nodes 0 0 xn,
      elements = map (refined_element basis) (enumerate 0 xe), generated = True\<rparr>"

definition grid_like :: "rat list list \<Rightarrow> rat list list \<Rightarrow> bool" where
  \<comment> \<open>An array of parametric points with as many rows as the grid, three coordinates each.\<close>
  "grid_like grid p = (length p = length grid \<and> (\<forall>row \<in> set p. length row = 3))"

definition built_from :: "string list \<Rightarrow> 'c list list \<Rightarrow> nat list list \<Rightarrow> 'c mesh \<Rightarrow> bool" where
  \<comment> \<open>What the refined mesh holds, relative to the returned arrays: node \<open>i\<close> has the id
      \<open>i + 1\<close> and the values \<open>xn ! i\<close>; element \<open>k\<close> has the id \<open>k + 1\<close>, the target basis and
      the node ids \<open>xe ! k\<close>, each shifted by one; the mesh is generated.\<close>
  "built_from basis xn xe rm =
     (length (nodes rm) = length xn \<and>
      (\<forall>i < length xn.
         nid (nodes rm ! i) = int i + 1 \<and>
         ngroup (nodes rm ! i) = ''_default'' \<and>
         node_values rm (nodes rm ! i) = ([length (xn ! i)], xn ! i)) \<and>
      length (P rm) = length (concat xn) \<and>
      length (elements rm) = length xe \<and>
      (\<forall>k < length xe.
         elements rm ! k
           = \<lparr>eid = int k + 1, ebasis = basis, enodes = map (\<lambda>j. int j + 1) (xe ! k)\<rparr>) \<and>
      generated rm)"



section \<open>A concrete mesh\<close>

definition unit_cube :: "rat mesh" where
  \<comment> \<open>One trilinear element on the corners of the unit cube, the first coordinate varying
      fastest, as \<open>create_morphic_mesh\<close> builds it.\<close>
  "unit_cube =
     \<lparr>P = [0, 0, 0,  1, 0, 0,  0, 1, 0,  1, 1, 0,  0, 0, 1,  1, 0, 1,  0, 1, 1,  1, 1, 1],
      nodes =
        [\<lparr>nid = 1, ngroup = ''_default'', nshape = [3], noffset = 0\<rparr>,
         \<lparr>nid = 2, ngroup = ''_default'', nshape = [3], noffset = 3\<rparr>,
         \<lparr>nid = 3, ngroup = ''_default'', nshape = [3], noffset = 6\<rparr>,
         \<lparr>nid = 4, ngroup = ''_default'', nshape = [3], noffset = 9\<rparr>,
         \<lparr>nid = 5, ngroup = ''_default'', nshape = [3], noffset = 12\<rparr>,
         \<lparr>nid = 6, ngroup = ''_default'', nshape = [3], noffset = 15\<rparr>,
         \<lparr>nid = 7, ngroup = ''_default'', nshape = [3], noffset = 18\<rparr>,
         \<lparr>nid = 8, ngroup = ''_default'', nshape = [3], noffset = 21\<rparr>],
      elements =
        [\<lparr>eid = 1, ebasis = [''L1'', ''L1'', ''L1''], enodes = [1, 2, 3, 4, 5, 6, 7, 8]\<rparr>],
      generated = True\<rparr>"

definition unit_cube_element :: element where
  "unit_cube_element =
     \<lparr>eid = 1, ebasis = [''L1'', ''L1'', ''L1''], enodes = [1, 2, 3, 4, 5, 6, 7, 8]\<rparr>"

definition corner_points :: "rat list list" where
  \<comment> \<open>The corners of the unit cube: the canonical grid of the trilinear basis, and the values
      of the nodes of \<open>unit_cube\<close>.\<close>
  "corner_points =
     [[0, 0, 0], [1, 0, 0], [0, 1, 0], [1, 1, 0], [0, 0, 1], [1, 0, 1], [0, 1, 1], [1, 1, 1]]"

definition lower_half :: "rat list list" where
  "lower_half =
     [[0, 0, 0], [1 / 2, 0, 0], [0, 1, 0], [1 / 2, 1, 0],
      [0, 0, 1], [1 / 2, 0, 1], [0, 1, 1], [1 / 2, 1, 1]]"

definition upper_half :: "rat list list" where
  "upper_half =
     [[1 / 2, 0, 0], [1, 0, 0], [1 / 2, 1, 0], [1, 1, 0],
      [1 / 2, 0, 1], [1, 0, 1], [1 / 2, 1, 1], [1, 1, 1]]"

definition halved_points :: "rat list list" where
  \<comment> \<open>The twelve distinct points of the two halves, in the order of their first occurrence.\<close>
  "halved_points =
     [[0, 0, 0], [1 / 2, 0, 0], [0, 1, 0], [1 / 2, 1, 0],
      [0, 0, 1], [1 / 2, 0, 1], [0, 1, 1], [1 / 2, 1, 1],
      [1, 0, 0], [1, 1, 0], [1, 0, 1], [1, 1, 1]]"

definition halved_connectivity :: "nat list list" where
  "halved_connectivity = [[0, 1, 2, 3, 4, 5, 6, 7], [1, 8, 3, 9, 5, 10, 7, 11]]"

definition test_node1 :: node where
  \<comment> \<open>The nodes and the store of \<open>test_set_slices\<close> (test/test_nodevalues.py): two nodes of
      shape 2 by 3, added one after the other.\<close>
  "test_node1 = \<lparr>nid = 1, ngroup = ''_default'', nshape = [2, 3], noffset = 0\<rparr>"

definition test_node2 :: node where
  "test_node2 = \<lparr>nid = 2, ngroup = ''_default'', nshape = [2, 3], noffset = 6\<rparr>"

definition set_all_mesh :: "rat mesh" where
  \<comment> \<open>The mesh of \<open>test_set_all\<close> and \<open>test_set_all_different_shape\<close> (test/test_nodevalues.py):
      one node of shape 2 by 3.\<close>
  "set_all_mesh =
     \<lparr>P = [0, 1 / 10, 2 / 10, 3 / 10, 4 / 10, 5 / 10],
      nodes = [test_node1], elements = [], generated = False\<rparr>"

definition test_mesh :: "rat mesh" where
  "test_mesh =
     \<lparr>P = [0, 1 / 10, 2 / 10, 3 / 10, 4 / 10, 5 / 10, 11, 12, 13, 15, 16, 66],
      nodes = [test_node1, test_node2], elements = [], generated = False\<rparr>"

definition nodal_points :: "'c mesh \<Rightarrow> element \<Rightarrow> rat list list \<Rightarrow> error + 'c list list" where
  \<comment> \<open>An instance of the argument \<open>ev\<close> for meshes of floats: whatever the parametric points,
      it returns the values of the element's nodes, which is what an element of a nodal basis
      takes on its canonical grid.\<close>
  "nodal_points m e xi_points =
     (if \<not> generated m then Inl NotGenerated
      else bind (find_nodes m (enodes e)) (\<lambda>ns. Inr (map (\<lambda>n. snd (node_values m n)) ns)))"

definition left_cell_points :: "float64 list list" where
  \<comment> \<open>The corners of the cell between \<open>x = -1.0\<close> and \<open>x = -0.0\<close>, as floats:
      \<open>0xBFF0000000000000\<close> is \<open>-1.0\<close>, \<open>0x8000000000000000\<close> is \<open>-0.0\<close>,
      \<open>0x3FF0000000000000\<close> is \<open>1.0\<close> and \<open>0\<close> is \<open>0.0\<close>.\<close>
  "left_cell_points =
     [[0xBFF0000000000000, 0, 0], [0x8000000000000000, 0, 0],
      [0xBFF0000000000000, 0x3FF0000000000000, 0], [0x8000000000000000, 0x3FF0000000000000, 0],
      [0xBFF0000000000000, 0, 0x3FF0000000000000], [0x8000000000000000, 0, 0x3FF0000000000000],
      [0xBFF0000000000000, 0x3FF0000000000000, 0x3FF0000000000000],
      [0x8000000000000000, 0x3FF0000000000000, 0x3FF0000000000000]]"

definition right_cell_points :: "float64 list list" where
  \<comment> \<open>The corners of the cell between \<open>x = 0.0\<close> and \<open>x = 1.0\<close>.\<close>
  "right_cell_points =
     [[0, 0, 0], [0x3FF0000000000000, 0, 0],
      [0, 0x3FF0000000000000, 0], [0x3FF0000000000000, 0x3FF0000000000000, 0],
      [0, 0, 0x3FF0000000000000], [0x3FF0000000000000, 0, 0x3FF0000000000000],
      [0, 0x3FF0000000000000, 0x3FF0000000000000],
      [0x3FF0000000000000, 0x3FF0000000000000, 0x3FF0000000000000]]"

definition two_cells :: "float64 mesh" where
  \<comment> \<open>Two trilinear cells that meet in the plane \<open>x = 0\<close>, each with eight nodes of its own,
      as \<open>create_morphic_mesh\<close> builds them: the nodes of the left cell in that plane hold
      \<open>-0.0\<close>, those of the right cell \<open>0.0\<close>.\<close>
  "two_cells =
     refined_mesh [''L1'', ''L1'', ''L1''] (left_cell_points @ right_cell_points)
       [[0, 1, 2, 3, 4, 5, 6, 7], [8, 9, 10, 11, 12, 13, 14, 15]]"

definition merged_points :: "float64 list list" where
  \<comment> \<open>The corners of the left cell, then the four corners of the right cell with
      \<open>x = 1.0\<close>.\<close>
  "merged_points =
     left_cell_points @
     [[0x3FF0000000000000, 0, 0], [0x3FF0000000000000, 0x3FF0000000000000, 0],
      [0x3FF0000000000000, 0, 0x3FF0000000000000],
      [0x3FF0000000000000, 0x3FF0000000000000, 0x3FF0000000000000]]"

definition nan_cell :: "float64 mesh" where
  \<comment> \<open>The right cell with a NaN, \<open>0x7FF8000000000000\<close>, as the first coordinate of its
      first node.\<close>
  "nan_cell =
     refined_mesh [''L1'', ''L1'', ''L1'']
       ([0x7FF8000000000000, 0, 0] # tl right_cell_points) [[0, 1, 2, 3, 4, 5, 6, 7]]"



section \<open>Properties\<close>

subsection \<open>Supported bases\<close>

text \<open>
  Claim C9.  \<open>get_num_elem_nodes\<close> returns \<open>[2,2,2]\<close>, \<open>[3,3,3]\<close> and \<open>[4,4,4]\<close> for the three
  uniform Lagrange bases and raises for every other basis list, the mixed list
  \<open>['L1','L2','L3']\<close> among them.  Every refinement function then fails with the same error,
  whatever the elements' \<open>evaluate\<close> would do: nothing is evaluated.
\<close>

theorem get_num_elem_nodes_uniform_only:
  "get_num_elem_nodes [''L1'', ''L1'', ''L1''] = Inr [2, 2, 2] \<and>
   get_num_elem_nodes [''L2'', ''L2'', ''L2''] = Inr [3, 3, 3] \<and>
   get_num_elem_nodes [''L3'', ''L3'', ''L3''] = Inr [4, 4, 4] \<and>
   get_num_elem_nodes [''L1'', ''L2'', ''L3''] = Inl ValueError \<and>
   (basis \<notin> {[''L1'', ''L1'', ''L1''], [''L2'', ''L2'', ''L2''], [''L3'', ''L3'', ''L3'']} \<longrightarrow>
      get_num_elem_nodes basis = Inl ValueError \<and>
      mesh_refine_along_xi1 ceq ev mesh basis fac = Inl ValueError \<and>
      mesh_refine_along_xi2 ceq ev mesh basis fac = Inl ValueError \<and>
      mesh_refine_along_xi3 ceq ev mesh basis fac = Inl ValueError \<and>
      full_refinement ceq ev mesh basis facs = Inl ValueError)"
  by (simp add: get_num_elem_nodes_def mesh_refine_along_xi1_def mesh_refine_along_xi2_def
      mesh_refine_along_xi3_def full_refinement_def)

theorem get_num_elem_nodes_uniform_only_witness:
  "[''L1'', ''L2'', ''L3''] \<notin>
     {[''L1'', ''L1'', ''L1''], [''L2'', ''L2'', ''L2''], [''L3'', ''L3'', ''L3'']} \<and>
   get_num_elem_nodes [''L1'', ''L2'', ''L3''] = Inl ValueError \<and>
   full_refinement (=) (\<lambda>m e xi. Inl NotGenerated) (Mesh :: rat mesh) [''L1'', ''L2'', ''L3''] [2, 2, 2]
     = Inl ValueError \<and>
   mesh_refine_along_xi1 (=) (\<lambda>m e xi. Inl NotGenerated) (Mesh :: rat mesh) [''L1'', ''L2'', ''L3''] 2
     = Inl ValueError"
  using get_num_elem_nodes_uniform_only
    [where basis = "[''L1'', ''L2'', ''L3'']" and ceq = "(=)"
       and ev = "\<lambda>m e xi. Inl NotGenerated" and mesh = "Mesh :: rat mesh" and fac = 2 and facs = "[2, 2, 2]"]
  by simp

subsection \<open>The canonical xi grid\<close>

lemma concat_map_upt:
  "concat (map (\<lambda>i. map (h i) [0..<m]) [0..<n]) = map (\<lambda>r. h (r div m) (r mod m)) [0..<n * m]"
proof (induction n)
  case 0 show ?case by simp
next
  case (Suc n)
  have "[0..<Suc n * m] = [0..<n * m] @ [n * m..<n * m + m]"
    by (metis add.commute mult_Suc upt_add_eq_append zero_le)
  moreover have "map (\<lambda>r. h (r div m) (r mod m)) [n * m..<n * m + m] = map (h n) [0..<m]"
    by (rule nth_equalityI) auto
  ultimately show ?case using Suc by simp
qed

lemma linspace_grid:
  "2 \<le> n \<Longrightarrow> linspace 0 1 (int n) = Inr (map (\<lambda>k. rat_of_nat k / rat_of_nat (n - 1)) [0..<n])"
  by (auto simp: linspace_def Let_def of_nat_diff)

lemma transpose3:
  "transpose [map f [0..<N], map g [0..<N], map h [0..<N]] = map (\<lambda>r. [f r, g r, h r]) [0..<N]"
  by (subst transpose_rectangle[where n = N]) (auto simp: nth_Cons' less_Suc_eq  intro!: nth_equalityI)

lemma flat3:
  "reshape3 (map (\<lambda>i. map (\<lambda>j. map (\<lambda>k. h i j k) [0..<c]) [0..<b]) [0..<a])
   = map (\<lambda>r. h (r div (b * c)) ((r div c) mod b) (r mod c)) [0..<a * b * c]"
proof -
  have "concat (map (\<lambda>i. map (\<lambda>j. map (\<lambda>k. h i j k) [0..<c]) [0..<b]) [0..<a])
        = map (\<lambda>r. map (\<lambda>k. h (r div b) (r mod b) k) [0..<c]) [0..<a * b]"
    by (rule concat_map_upt)
  then have "reshape3 (map (\<lambda>i. map (\<lambda>j. map (\<lambda>k. h i j k) [0..<c]) [0..<b]) [0..<a])
        = concat (map (\<lambda>r. map (\<lambda>k. h (r div b) (r mod b) k) [0..<c]) [0..<a * b])"
    by (simp add: reshape3_def)
  also have "\<dots> = map (\<lambda>s. h ((s div c) div b) ((s div c) mod b) (s mod c)) [0..<a * b * c]"
    by (rule concat_map_upt)
  finally show ?thesis by (simp add: div_mult2_eq[symmetric] mult.commute)
qed

lemma flat3_gen:
  "reshape3 (map (\<lambda>y. map (\<lambda>x. map (\<lambda>z. h y x z) (map g [0..<c])) (map g [0..<b])) (map g [0..<a]))
   = map (\<lambda>r. h (g (r div (b * c))) (g ((r div c) mod b)) (g (r mod c))) [0..<a * b * c]"
  using flat3[of "\<lambda>i j k. h (g i) (g j) (g k)" c b a] by (simp add: comp_def)


lemma flat3_inner:
  "reshape3 (map (\<lambda>y. map (\<lambda>x. map g [0..<c]) (map g1 [0..<b])) (map g2 [0..<a]))
   = map (\<lambda>r. g (r mod c)) [0..<a * b * c]"
  using flat3[of "\<lambda>i j k. g k" c b a] by (simp add: comp_def)

lemma generate_xi_grid_rows:
  assumes "2 \<le> n"
  shows "generate_xi_grid [int n, int n, int n] 3 = Inr (map (grid_row n) [0..<n * n * n])"
proof -
  let ?g = "\<lambda>k. rat_of_nat k / rat_of_nat (n - 1)"
  show ?thesis
    unfolding generate_xi_grid_def
    by (simp add: py_index_def linspace_grid[OF assms] meshgrid3_def flat3_gen flat3_inner transpose3 grid_row_def del: map_map)
qed

lemma grid_index:
  assumes "i < n" "j < n" "k < n"
  shows "i + n * j + n * n * k < n * n * n"
    and "grid_row n (i + n * j + n * n * k)
         = [rat_of_nat i / rat_of_nat (n - 1), rat_of_nat j / rat_of_nat (n - 1),
            rat_of_nat k / rat_of_nat (n - 1)]"
proof -
  have "i + n * j + n * n * k \<le> (n - 1) + n * (n - 1) + n * n * (n - 1)"
    using assms by (intro add_mono mult_le_mono) auto
  also have "\<dots> < n * n * n" using assms by (cases n) (auto simp: algebra_simps)
  finally show "i + n * j + n * n * k < n * n * n" .
  have m: "(i + n * j + n * n * k) mod n = i" using assms by (simp add: mult.assoc)
  have d1: "(i + n * j + n * n * k) div n = j + n * k" using assms by (simp add: mult.assoc)
  have d2: "(i + n * j + n * n * k) div (n * n) = k"
    using assms d1 by (simp add: div_mult2_eq)
  show "grid_row n (i + n * j + n * n * k)
         = [rat_of_nat i / rat_of_nat (n - 1), rat_of_nat j / rat_of_nat (n - 1),
            rat_of_nat k / rat_of_nat (n - 1)]"
    unfolding grid_row_def m d1 d2 using assms by simp
qed

lemma grid_decompose: "(r::nat) = r mod n + n * ((r div n) mod n) + n * n * (r div (n * n))"
proof -
  have "r div n = (r div n) mod n + n * (r div n div n)" by (metis mod_mult_div_eq)
  then have "n * (r div n) = n * ((r div n) mod n) + n * n * (r div (n * n))"
    by (metis distrib_left div_mult2_eq mult.assoc)
  moreover have "r = r mod n + n * (r div n)" by (metis mod_mult_div_eq)
  ultimately show ?thesis by linarith
qed

lemma grid_row_inj:
  assumes "2 \<le> n" "grid_row n r = grid_row n s"
  shows "r = s"
proof -
  have pos: "rat_of_nat (n - 1) \<noteq> 0" using assms by simp
  from assms(2) have "r mod n = s mod n" "(r div n) mod n = (s div n) mod n"
    "r div (n * n) = s div (n * n)"
    using pos by (simp_all add: grid_row_def)
  then show ?thesis using grid_decompose[of r n] grid_decompose[of s n] assms(1) by simp
qed

lemma grid_rows_distinct: "2 \<le> n \<Longrightarrow> distinct (map (grid_row n) [0..<n * n * n])"
  by (auto simp: distinct_map inj_on_def dest: grid_row_inj)

lemma grid_rows_set:
  assumes "2 \<le> n"
  shows "set (map (grid_row n) [0..<n * n * n])
       = {[rat_of_nat a / rat_of_nat (n - 1), rat_of_nat b / rat_of_nat (n - 1),
           rat_of_nat c / rat_of_nat (n - 1)] | a b c. a < n \<and> b < n \<and> c < n}" (is "?L = ?R")
proof
  show "?L \<subseteq> ?R"
  proof
    fix x assume "x \<in> ?L"
    then obtain r where r: "r < n * n * n" "x = grid_row n r" by auto
    have "r div (n * n) < n" using r(1) assms
      by (simp add: less_mult_imp_div_less mult.commute)
    moreover have "r mod n < n" "(r div n) mod n < n" using assms by auto
    ultimately show "x \<in> ?R" unfolding r(2) grid_row_def by blast
  qed
  show "?R \<subseteq> ?L"
  proof
    fix x assume "x \<in> ?R"
    then obtain a b c where abc: "a < n" "b < n" "c < n"
      "x = [rat_of_nat a / rat_of_nat (n - 1), rat_of_nat b / rat_of_nat (n - 1),
           rat_of_nat c / rat_of_nat (n - 1)]" by blast
    from grid_index[OF abc(1-3)] abc(4) show "x \<in> ?L" by (metis (no_types, lifting) atLeastLessThan_iff image_eqI list.set_map set_upt zero_le)
  qed
qed

lemma generate_xi_grid_fem_eq: "generate_xi_grid_fem num_points d = generate_xi_grid num_points d"
  by (simp add: generate_xi_grid_fem_def generate_xi_grid_def)

text \<open>
  Claim C10.  For three dimensions and \<open>n \<ge> 2\<close> samples on every axis, \<open>generate_xi_grid\<close>
  (and its copy \<open>generate_xi_grid_fem\<close>) returns \<open>n ^ 3\<close> rows of three coordinates in \<open>[0, 1]\<close>,
  each coordinate of the form \<open>k / (n - 1)\<close> with \<open>k < n\<close>; every point of the Cartesian product
  grid occurs exactly once; and the row at position \<open>i + n * j + n * n * k\<close> is the point with
  indices \<open>(i, j, k)\<close>, so the first coordinate varies fastest and the third slowest.
\<close>

theorem generate_xi_grid_cartesian:
  assumes "2 \<le> n"
  shows "\<exists>rows.
           generate_xi_grid [int n, int n, int n] 3 = Inr rows \<and>
           generate_xi_grid_fem [int n, int n, int n] 3 = Inr rows \<and>
           length rows = n ^ 3 \<and>
           distinct rows \<and>
           set rows = {[rat_of_nat a / rat_of_nat (n - 1), rat_of_nat b / rat_of_nat (n - 1),
                        rat_of_nat c / rat_of_nat (n - 1)] | a b c. a < n \<and> b < n \<and> c < n} \<and>
           (\<forall>row \<in> set rows. length row = 3 \<and> (\<forall>x \<in> set row. 0 \<le> x \<and> x \<le> 1)) \<and>
           (\<forall>i < n. \<forall>j < n. \<forall>k < n.
              rows ! (i + n * j + n * n * k)
                = [rat_of_nat i / rat_of_nat (n - 1), rat_of_nat j / rat_of_nat (n - 1),
                   rat_of_nat k / rat_of_nat (n - 1)])"
proof -
  let ?rows = "map (grid_row n) [0..<n * n * n]"
  have gen: "generate_xi_grid [int n, int n, int n] 3 = Inr ?rows"
    by (rule generate_xi_grid_rows[OF assms])
  have len: "length ?rows = n ^ 3" by (simp add: power3_eq_cube)
  have idx: "\<forall>i < n. \<forall>j < n. \<forall>k < n.
              ?rows ! (i + n * j + n * n * k)
                = [rat_of_nat i / rat_of_nat (n - 1), rat_of_nat j / rat_of_nat (n - 1),
                   rat_of_nat k / rat_of_nat (n - 1)]"
    using grid_index by simp
  have unit: "\<forall>row \<in> set ?rows. length row = 3 \<and> (\<forall>x \<in> set row. 0 \<le> x \<and> x \<le> 1)"
  proof
    fix row assume "row \<in> set ?rows"
    then obtain a b c where abc: "a < n" "b < n" "c < n"
      "row = [rat_of_nat a / rat_of_nat (n - 1), rat_of_nat b / rat_of_nat (n - 1),
              rat_of_nat c / rat_of_nat (n - 1)]"
      unfolding grid_rows_set[OF assms] by blast
    have "\<And>m. m < n \<Longrightarrow> rat_of_nat m / rat_of_nat (n - 1) \<le> 1"
      using assms by (simp add: divide_le_eq)
    with abc show "length row = 3 \<and> (\<forall>x \<in> set row. 0 \<le> x \<and> x \<le> 1)" by simp
  qed
  show ?thesis
    using gen len idx unit grid_rows_distinct[OF assms] grid_rows_set[OF assms]
    unfolding generate_xi_grid_fem_eq by blast
qed

theorem generate_xi_grid_cartesian_witness:
  "(2::nat) \<le> 2 \<and>
   (\<exists>rows. generate_xi_grid [2, 2, 2] 3 = Inr rows \<and> length rows = 8 \<and> distinct rows \<and>
      rows ! 0 = [0, 0, 0] \<and> rows ! 1 = [1, 0, 0] \<and> rows ! 2 = [0, 1, 0] \<and>
      rows ! 4 = [0, 0, 1] \<and> rows ! 7 = [1, 1, 1])"
proof -
  obtain rows where r: "generate_xi_grid [2, 2, 2] 3 = Inr rows" "length rows = (2::nat) ^ 3"
    "distinct rows"
    and idx: "\<forall>i < 2. \<forall>j < 2. \<forall>k < 2.
      rows ! (i + 2 * j + 2 * 2 * k)
        = [rat_of_nat i / rat_of_nat (2 - 1), rat_of_nat j / rat_of_nat (2 - 1),
           rat_of_nat k / rat_of_nat (2 - 1)]"
    using generate_xi_grid_cartesian[of 2] by auto
  have "rows ! 0 = [0, 0, 0]" using idx[rule_format, of 0 0 0] by simp
  moreover have "rows ! 1 = [1, 0, 0]" using idx[rule_format, of 1 0 0] by simp
  moreover have "rows ! 2 = [0, 1, 0]" using idx[rule_format, of 0 1 0] by (simp add: numeral_2_eq_2)
  moreover have "rows ! 4 = [0, 0, 1]" using idx[rule_format, of 0 0 1] by simp
  moreover have "rows ! 7 = [1, 1, 1]" using idx[rule_format, of 1 1 1] by simp
  ultimately show ?thesis using r by auto
qed

subsection \<open>The deduplication loops\<close>

lemma bind_Inr_iff: "bind x f = Inr y \<longleftrightarrow> (\<exists>v. x = Inr v \<and> f v = Inr y)"
  by (cases x) auto

lemma dict_get_eq: "dict_get (=) m k = map_of m k"
  by (induction m) auto

lemma index_of_append: "p \<in> set ks \<Longrightarrow> index_of (ks @ zs) p = index_of ks p"
  by (simp add: index_of_def takeWhile_append1)

lemma index_of_snoc_new: "p \<notin> set ks \<Longrightarrow> index_of (ks @ [p]) p = length ks"
  by (induction ks) (auto simp: index_of_def)

lemma index_of_less: "p \<in> set ks \<Longrightarrow> index_of ks p < length ks"
  unfolding index_of_def by (induction ks) auto

lemma nth_index_of: "p \<in> set ks \<Longrightarrow> ks ! index_of ks p = p"
  unfolding index_of_def by (induction ks) auto

lemma index_of_inj: "p \<in> set ks \<Longrightarrow> q \<in> set ks \<Longrightarrow> index_of ks p = index_of ks q \<longleftrightarrow> p = q"
  by (metis nth_index_of)

lemma map_of_zip_upt:
  "map_of (zip ks [n..<n + length ks]) p = (if p \<in> set ks then Some (n + index_of ks p) else None)"
proof (induction ks arbitrary: n)
  case Nil show ?case by simp
next
  case (Cons k ks)
  have "[n..<n + length (k # ks)] = n # [Suc n..<Suc n + length ks]"
    using upt_conv_Cons[of n "n + length (k # ks)"]
    by (simp add: upt_conv_Cons)
  then show ?case using Cons[of "Suc n"] by (auto simp: index_of_def)
qed

lemma map_of_enum_dict:
  "map_of (enum_dict ks) p = (if p \<in> set ks then Some (index_of ks p) else None)"
  using map_of_zip_upt[of ks 0 p] by (simp add: enum_dict_def)

lemma length_enum_dict: "length (enum_dict ks) = length ks"
  by (simp add: enum_dict_def)

lemma enum_dict_snoc: "enum_dict ks @ [(p, length ks)] = enum_dict (ks @ [p])"
  by (simp add: enum_dict_def)

lemma map_fst_enum_dict: "map fst (enum_dict ks) = ks"
  by (simp add: enum_dict_def)

lemma first_seen_from_prefix: "\<exists>zs. first_seen_from ks ps = ks @ zs"
proof (induction ps arbitrary: ks)
  case Nil show ?case by simp
next
  case (Cons p ps)
  show ?case using Cons[of "if p \<in> set ks then ks else ks @ [p]"] by auto
qed

lemma set_first_seen_from: "set (first_seen_from ks ps) = set ks \<union> set ps"
  by (induction ps arbitrary: ks) auto

lemma distinct_first_seen_from: "distinct ks \<Longrightarrow> distinct (first_seen_from ks ps)"
  by (induction ps arbitrary: ks) auto

lemma first_seen_from_append:
  "first_seen_from ks (ps @ qs) = first_seen_from (first_seen_from ks ps) qs"
  by (induction ps arbitrary: ks) auto

lemma index_of_first_seen_from:
  "p \<in> set ks \<Longrightarrow> index_of (first_seen_from ks ps) p = index_of ks p"
  using first_seen_from_prefix[of ks ps] by (auto simp: index_of_append)

lemma map_index_of_first_seen_from:
  "set qs \<subseteq> set ks \<Longrightarrow> map (index_of (first_seen_from ks ps)) qs = map (index_of ks) qs"
  by (auto simp: index_of_first_seen_from)

lemma node_loop_enum:
  "node_loop (=) (enum_dict ks) ids ps
     = Inr (enum_dict (first_seen_from ks ps), ids @ map (index_of (first_seen_from ks ps)) ps)"
proof (induction ps arbitrary: ks ids)
  case Nil show ?case by simp
next
  case (Cons p ps)
  let ?ks = "if p \<in> set ks then ks else ks @ [p]"
  have m: "(if dict_get (=) (enum_dict ks) p = None
            then enum_dict ks @ [(p, length (enum_dict ks))]
            else enum_dict ks) = enum_dict ?ks"
    by (simp add: dict_get_eq map_of_enum_dict length_enum_dict enum_dict_snoc)
  have p: "p \<in> set ?ks" by simp
  have look: "dict_get (=) (enum_dict ?ks) p = Some (index_of ?ks p)"
    using p by (simp only: dict_get_eq map_of_enum_dict if_True)
  have stable: "index_of (first_seen_from ?ks ps) p = index_of ?ks p"
    by (rule index_of_first_seen_from[OF p])
  have "node_loop (=) (enum_dict ks) ids (p # ps) = node_loop (=) (enum_dict ?ks) (ids @ [index_of ?ks p]) ps"
    by (simp only: node_loop.simps m Let_def look option.case)
  also have "\<dots> = Inr (enum_dict (first_seen_from ?ks ps),
                 (ids @ [index_of ?ks p]) @ map (index_of (first_seen_from ?ks ps)) ps)"
    by (rule Cons.IH)
  finally show ?case by (simp only: first_seen_from.simps stable list.map append_assoc append.simps)
qed

lemma part_loop_enum:
  assumes "\<forall>p \<in> set parts. f p = Inr (g p)"
  shows "part_loop (=) f (enum_dict ks) xe parts
     = Inr (enum_dict (first_seen_from ks (concat (map g parts))),
            xe @ map (\<lambda>p. map (index_of (first_seen_from ks (concat (map g parts)))) (g p)) parts)"
  using assms
proof (induction parts arbitrary: ks xe)
  case Nil show ?case by simp
next
  case (Cons p parts)
  let ?ks = "first_seen_from ks (g p)"
  have fp: "f p = Inr (g p)" using Cons.prems by simp
  have rest: "\<forall>q \<in> set parts. f q = Inr (g q)" using Cons.prems by simp
  have sub: "set (g p) \<subseteq> set ?ks" by (simp add: set_first_seen_from)
  have stable: "map (index_of (first_seen_from ?ks (concat (map g parts)))) (g p)
              = map (index_of ?ks) (g p)"
    by (rule map_index_of_first_seen_from[OF sub])
  show ?case
    by (simp add: fp node_loop_enum Cons.IH[OF rest] first_seen_from_append stable)
qed

lemma elem_loop_enum:
  assumes "\<forall>e \<in> set es. \<forall>p \<in> set parts. ev e p = Inr (g e p)"
  shows "elem_loop (=) ev (enum_dict ks) xe parts es
     = Inr (enum_dict (first_seen_from ks (concat (concat (map (\<lambda>e. map (g e) parts) es)))),
            xe @ map (map (index_of (first_seen_from ks
                       (concat (concat (map (\<lambda>e. map (g e) parts) es))))))
                     (concat (map (\<lambda>e. map (g e) parts) es)))"
  using assms
proof (induction es arbitrary: ks xe)
  case Nil show ?case by simp
next
  case (Cons e es)
  let ?ks = "first_seen_from ks (concat (map (g e) parts))"
  let ?K = "first_seen_from ?ks (concat (concat (map (\<lambda>e. map (g e) parts) es)))"
  have fe: "\<forall>p \<in> set parts. ev e p = Inr (g e p)" using Cons.prems by simp
  have rest: "\<forall>e \<in> set es. \<forall>p \<in> set parts. ev e p = Inr (g e p)" using Cons.prems by simp
  have stable: "map (\<lambda>p. map (index_of ?ks) (g e p)) parts
              = map (\<lambda>p. map (index_of ?K) (g e p)) parts"
  proof (rule map_cong[OF refl])
    fix p assume "p \<in> set parts"
    then have "set (g e p) \<subseteq> set ?ks" by (auto simp: set_first_seen_from)
    then show "map (index_of ?ks) (g e p) = map (index_of ?K) (g e p)"
      by (simp only: map_index_of_first_seen_from)
  qed
  show ?case
    by (simp add: part_loop_enum[OF fe] Cons.IH[OF rest] first_seen_from_append stable comp_def)
qed

subsection \<open>Dictionaries under a comparison of keys\<close>

lemma index_by_eq: "index_by (=) ks p = index_of ks p"
  by (simp add: index_by_def index_of_def)

lemma first_seen_by_eq: "first_seen_by (=) ks ps = first_seen_from ks ps"
  by (induction ps arbitrary: ks) auto

lemma index_by_append:
  "\<exists>y \<in> set ks. keq y p \<Longrightarrow> index_by keq (ks @ zs) p = index_by keq ks p"
  by (auto simp: index_by_def takeWhile_append1)

lemma index_by_less: "\<exists>y \<in> set ks. keq y p \<Longrightarrow> index_by keq ks p < length ks"
  unfolding index_by_def by (induction ks) auto

lemma nth_index_by: "\<exists>y \<in> set ks. keq y p \<Longrightarrow> keq (ks ! index_by keq ks p) p"
  unfolding index_by_def by (induction ks) auto

lemma dict_get_zip:
  "dict_get keq (zip ks [n..<n + length ks]) p
     = (if \<exists>y \<in> set ks. keq y p then Some (n + index_by keq ks p) else None)"
proof (induction ks arbitrary: n)
  case Nil show ?case by simp
next
  case (Cons k ks)
  have "[n..<n + length (k # ks)] = n # [Suc n..<Suc n + length ks]"
    using upt_conv_Cons[of n "n + length (k # ks)"]
    by (simp add: upt_conv_Cons)
  then show ?case using Cons[of "Suc n"] by (auto simp: index_by_def)
qed

lemma dict_get_enum_dict:
  "dict_get keq (enum_dict ks) p
     = (if \<exists>y \<in> set ks. keq y p then Some (index_by keq ks p) else None)"
  using dict_get_zip[of keq ks 0 p] by (simp add: enum_dict_def)

lemma first_seen_by_prefix: "\<exists>zs. first_seen_by keq ks ps = ks @ zs"
proof (induction ps arbitrary: ks)
  case Nil show ?case by simp
next
  case (Cons p ps)
  let ?ks = "if \<exists>y \<in> set ks. keq y p then ks else ks @ [p]"
  obtain zs where zs: "first_seen_by keq ?ks ps = ?ks @ zs" using Cons[of ?ks] by blast
  obtain ys where ys: "?ks = ks @ ys" by (cases "\<exists>y \<in> set ks. keq y p") simp_all
  have "first_seen_by keq ks (p # ps) = first_seen_by keq ?ks ps"
    by (simp only: first_seen_by.simps)
  also have "\<dots> = ?ks @ zs" by (rule zs)
  also have "\<dots> = ks @ (ys @ zs)" using ys by (simp only: append_assoc)
  finally show ?case by blast
qed

lemma first_seen_by_append:
  "first_seen_by keq ks (ps @ qs) = first_seen_by keq (first_seen_by keq ks ps) qs"
  by (induction ps arbitrary: ks) auto

lemma set_first_seen_by: "set (first_seen_by keq ks ps) \<subseteq> set ks \<union> set ps"
proof (induction ps arbitrary: ks)
  case Nil show ?case by simp
next
  case (Cons p ps)
  let ?ks = "if \<exists>y \<in> set ks. keq y p then ks else ks @ [p]"
  have a: "set ?ks \<subseteq> set ks \<union> set (p # ps)" by (cases "\<exists>y \<in> set ks. keq y p") auto
  have b: "set (first_seen_by keq ?ks ps) \<subseteq> set ?ks \<union> set ps" by (rule Cons)
  have c: "first_seen_by keq ks (p # ps) = first_seen_by keq ?ks ps"
    by (simp only: first_seen_by.simps)
  have "set (first_seen_by keq ?ks ps) \<subseteq> set ks \<union> set (p # ps)"
    using a b by (simp only: list.set) blast
  then show ?case by (simp only: c)
qed

lemma first_seen_by_keeps:
  "\<exists>y \<in> set ks. keq y p \<Longrightarrow> \<exists>y \<in> set (first_seen_by keq ks ps). keq y p"
proof -
  assume a: "\<exists>y \<in> set ks. keq y p"
  obtain zs where "first_seen_by keq ks ps = ks @ zs"
    using first_seen_by_prefix[of keq ks ps] by blast
  then show ?thesis using a by auto
qed

lemma first_seen_by_covers:
  "p \<in> set ps \<Longrightarrow> keq p p \<Longrightarrow> \<exists>y \<in> set (first_seen_by keq ks ps). keq y p"
proof (induction ps arbitrary: ks)
  case Nil then show ?case by simp
next
  case (Cons q ps)
  let ?ks = "if \<exists>y \<in> set ks. keq y q then ks else ks @ [q]"
  show ?case
  proof (cases "p = q")
    case True
    have "\<exists>y \<in> set ?ks. keq y p"
      using Cons.prems(2) True by (cases "\<exists>y \<in> set ks. keq y q") auto
    from first_seen_by_keeps[where keq = keq and ps = ps, OF this] show ?thesis
      by (simp only: first_seen_by.simps)
  next
    case False
    then have "p \<in> set ps" using Cons.prems(1) by simp
    from Cons.IH[OF this Cons.prems(2)] show ?thesis by (simp only: first_seen_by.simps)
  qed
qed

lemma index_by_first_seen_by:
  "\<exists>y \<in> set ks. keq y p \<Longrightarrow> index_by keq (first_seen_by keq ks ps) p = index_by keq ks p"
proof -
  assume a: "\<exists>y \<in> set ks. keq y p"
  obtain zs where "first_seen_by keq ks ps = ks @ zs"
    using first_seen_by_prefix[of keq ks ps] by blast
  then show ?thesis using index_by_append[where keq = keq, OF a] by simp
qed

lemma map_index_by_first_seen_by:
  "\<forall>p \<in> set qs. \<exists>y \<in> set ks. keq y p
     \<Longrightarrow> map (index_by keq (first_seen_by keq ks ps)) qs = map (index_by keq ks) qs"
  by (simp add: index_by_first_seen_by)

lemma node_loop_by:
  assumes "\<forall>p \<in> set ps. keq p p"
  shows "node_loop keq (enum_dict ks) ids ps
     = Inr (enum_dict (first_seen_by keq ks ps), ids @ map (index_by keq (first_seen_by keq ks ps)) ps)"
  using assms
proof (induction ps arbitrary: ks ids)
  case Nil show ?case by simp
next
  case (Cons p ps)
  let ?ks = "if \<exists>y \<in> set ks. keq y p then ks else ks @ [p]"
  have m: "(if dict_get keq (enum_dict ks) p = None
            then enum_dict ks @ [(p, length (enum_dict ks))]
            else enum_dict ks) = enum_dict ?ks"
    by (simp add: dict_get_enum_dict length_enum_dict enum_dict_snoc)
  have p: "\<exists>y \<in> set ?ks. keq y p"
    using Cons.prems by (cases "\<exists>y \<in> set ks. keq y p") auto
  have look: "dict_get keq (enum_dict ?ks) p = Some (index_by keq ?ks p)"
    using p by (simp only: dict_get_enum_dict if_True)
  have stable: "index_by keq (first_seen_by keq ?ks ps) p = index_by keq ?ks p"
    by (rule index_by_first_seen_by[where keq = keq, OF p])
  have rest: "\<forall>p \<in> set ps. keq p p" using Cons.prems by simp
  have "node_loop keq (enum_dict ks) ids (p # ps)
      = node_loop keq (enum_dict ?ks) (ids @ [index_by keq ?ks p]) ps"
    by (simp only: node_loop.simps m Let_def look option.case)
  also have "\<dots> = Inr (enum_dict (first_seen_by keq ?ks ps),
                 (ids @ [index_by keq ?ks p]) @ map (index_by keq (first_seen_by keq ?ks ps)) ps)"
    by (rule Cons.IH[OF rest])
  finally show ?case by (simp only: first_seen_by.simps stable list.map append_assoc append.simps)
qed

lemma part_loop_by:
  assumes "\<forall>p \<in> set parts. f p = Inr (g p)"
    and "\<forall>p \<in> set parts. \<forall>pt \<in> set (g p). keq pt pt"
  shows "part_loop keq f (enum_dict ks) xe parts
     = Inr (enum_dict (first_seen_by keq ks (concat (map g parts))),
            xe @ map (\<lambda>p. map (index_by keq (first_seen_by keq ks (concat (map g parts)))) (g p))
                   parts)"
  using assms
proof (induction parts arbitrary: ks xe)
  case Nil show ?case by simp
next
  case (Cons p parts)
  let ?ks = "first_seen_by keq ks (g p)"
  have fp: "f p = Inr (g p)" using Cons.prems by simp
  have rp: "\<forall>pt \<in> set (g p). keq pt pt" using Cons.prems by simp
  have rest: "\<forall>q \<in> set parts. f q = Inr (g q)"
    "\<forall>q \<in> set parts. \<forall>pt \<in> set (g q). keq pt pt" using Cons.prems by simp_all
  have sub: "\<forall>pt \<in> set (g p). \<exists>y \<in> set ?ks. keq y pt"
    using rp first_seen_by_covers[of _ "g p" keq ks] by blast
  have stable: "map (index_by keq (first_seen_by keq ?ks (concat (map g parts)))) (g p)
              = map (index_by keq ?ks) (g p)"
    by (rule map_index_by_first_seen_by[where keq = keq, OF sub])
  show ?case
    by (simp add: fp node_loop_by[where keq = keq, OF rp] Cons.IH[OF rest] first_seen_by_append
        stable)
qed

lemma elem_loop_by:
  assumes "\<forall>e \<in> set es. \<forall>p \<in> set parts. ev e p = Inr (g e p)"
    and "\<forall>e \<in> set es. \<forall>p \<in> set parts. \<forall>pt \<in> set (g e p). keq pt pt"
  shows "elem_loop keq ev (enum_dict ks) xe parts es
     = Inr (enum_dict (first_seen_by keq ks (concat (concat (map (\<lambda>e. map (g e) parts) es)))),
            xe @ map (map (index_by keq (first_seen_by keq ks
                       (concat (concat (map (\<lambda>e. map (g e) parts) es))))))
                     (concat (map (\<lambda>e. map (g e) parts) es)))"
  using assms
proof (induction es arbitrary: ks xe)
  case Nil show ?case by simp
next
  case (Cons e es)
  let ?ks = "first_seen_by keq ks (concat (map (g e) parts))"
  let ?K = "first_seen_by keq ?ks (concat (concat (map (\<lambda>e. map (g e) parts) es)))"
  have fe: "\<forall>p \<in> set parts. ev e p = Inr (g e p)"
    "\<forall>p \<in> set parts. \<forall>pt \<in> set (g e p). keq pt pt" using Cons.prems by simp_all
  have rest: "\<forall>e \<in> set es. \<forall>p \<in> set parts. ev e p = Inr (g e p)"
    "\<forall>e \<in> set es. \<forall>p \<in> set parts. \<forall>pt \<in> set (g e p). keq pt pt"
    using Cons.prems by simp_all
  have stable: "map (\<lambda>p. map (index_by keq ?ks) (g e p)) parts
              = map (\<lambda>p. map (index_by keq ?K) (g e p)) parts"
  proof (rule map_cong[OF refl])
    fix p assume p: "p \<in> set parts"
    have "\<forall>pt \<in> set (g e p). \<exists>y \<in> set ?ks. keq y pt"
    proof
      fix pt assume "pt \<in> set (g e p)"
      then have "pt \<in> set (concat (map (g e) parts))" "keq pt pt" using p fe(2) by auto
      then show "\<exists>y \<in> set ?ks. keq y pt" by (rule first_seen_by_covers)
    qed
    then show "map (index_by keq ?ks) (g e p) = map (index_by keq ?K) (g e p)"
      by (simp only: map_index_by_first_seen_by)
  qed
  show ?case
    by (simp add: part_loop_by[where keq = keq and f = "ev e" and g = "g e", OF fe]
        Cons.IH[OF rest] first_seen_by_append stable comp_def)
qed

lemma first_seen_by_apart:
  assumes "symp keq"
    and "\<forall>i < length ks. \<forall>j < length ks. keq (ks ! i) (ks ! j) \<longrightarrow> i = j"
  shows "\<forall>i < length (first_seen_by keq ks ps). \<forall>j < length (first_seen_by keq ks ps).
           keq (first_seen_by keq ks ps ! i) (first_seen_by keq ks ps ! j) \<longrightarrow> i = j"
  using assms(2)
proof (induction ps arbitrary: ks)
  case Nil then show ?case by simp
next
  case (Cons p ps)
  let ?ks = "if \<exists>y \<in> set ks. keq y p then ks else ks @ [p]"
  have "\<forall>i < length ?ks. \<forall>j < length ?ks. keq (?ks ! i) (?ks ! j) \<longrightarrow> i = j"
  proof (cases "\<exists>y \<in> set ks. keq y p")
    case True then show ?thesis using Cons.prems by simp
  next
    case False
    then have no: "\<And>i. i < length ks \<Longrightarrow> \<not> keq (ks ! i) p" by auto
    then have no': "\<And>i. i < length ks \<Longrightarrow> \<not> keq p (ks ! i)"
      using assms(1) by (auto dest: sympD)
    have "\<And>i j. i < Suc (length ks) \<Longrightarrow> j < Suc (length ks)
            \<Longrightarrow> keq ((ks @ [p]) ! i) ((ks @ [p]) ! j) \<Longrightarrow> i = j"
    proof -
      fix i j assume h: "i < Suc (length ks)" "j < Suc (length ks)"
        "keq ((ks @ [p]) ! i) ((ks @ [p]) ! j)"
      show "i = j"
      proof (cases "i < length ks")
        case True
        show ?thesis
        proof (cases "j < length ks")
          case True
          with \<open>i < length ks\<close> h(3) Cons.prems show ?thesis by (simp add: nth_append)
        next
          case False
          then have "j = length ks" using h(2) by simp
          with \<open>i < length ks\<close> h(3) no[of i] show ?thesis by (simp add: nth_append)
        qed
      next
        case False
        then have i: "i = length ks" using h(1) by simp
        show ?thesis
        proof (cases "j < length ks")
          case True
          with i h(3) no'[of j] show ?thesis by (simp add: nth_append)
        next
          case False
          then show ?thesis using i h(2) by simp
        qed
      qed
    qed
    then show ?thesis using False by simp
  qed
  from Cons.IH[OF this] show ?case by (simp only: first_seen_by.simps)
qed

lemma index_by_cong:
  assumes "symp keq" "transp keq" "keq p q"
  shows "index_by keq ks p = index_by keq ks q"
proof -
  have "\<And>y. keq y p = keq y q"
    using assms by (meson sympD transpD)
  then show ?thesis by (simp add: index_by_def)
qed

lemma index_by_inj:
  assumes "symp keq" "transp keq"
    and "\<exists>y \<in> set ks. keq y p" "\<exists>y \<in> set ks. keq y q"
  shows "(index_by keq ks p = index_by keq ks q) = keq p q"
proof
  assume e: "index_by keq ks p = index_by keq ks q"
  have "keq (ks ! index_by keq ks p) p" by (rule nth_index_by[where keq = keq, OF assms(3)])
  moreover have "keq (ks ! index_by keq ks p) q"
    using nth_index_by[where keq = keq, OF assms(4)] e by simp
  ultimately show "keq p q" using assms(1,2) by (meson sympD transpD)
next
  assume "keq p q"
  then show "index_by keq ks p = index_by keq ks q" by (rule index_by_cong[OF assms(1,2)])
qed

lemma dedup_result_by_first_seen:
  assumes "symp keq" "transp keq" "\<forall>p \<in> set (concat rows). keq p p"
  shows "dedup_result_by keq rows (first_seen_by keq [] (concat rows))
           (map (map (index_by keq (first_seen_by keq [] (concat rows)))) rows)"
proof -
  let ?K = "first_seen_by keq [] (concat rows)"
  have cov: "\<forall>p \<in> set (concat rows). \<exists>y \<in> set ?K. keq y p"
    using assms(3) first_seen_by_covers[of _ "concat rows" keq "[]"] by blast
  have s: "set ?K \<subseteq> set (concat rows)"
    using set_first_seen_by[of keq "[]" "concat rows"] by simp
  have ap: "\<forall>i < length ?K. \<forall>j < length ?K. keq (?K ! i) (?K ! j) \<longrightarrow> i = j"
    by (rule first_seen_by_apart[OF assms(1)]) simp
  have ix: "\<forall>p \<in> set (concat rows). index_by keq ?K p < length ?K \<and> keq (?K ! index_by keq ?K p) p"
    using cov index_by_less[where keq = keq and ks = ?K] nth_index_by[where keq = keq and ks = ?K]
    by blast
  have inj: "\<forall>p \<in> set (concat rows). \<forall>q \<in> set (concat rows).
               (index_by keq ?K p = index_by keq ?K q) = keq p q"
    using cov index_by_inj[where keq = keq and ks = ?K, OF assms(1,2)] by blast
  show ?thesis
    unfolding dedup_result_by_def using s ap ix inj by blast
qed

subsection \<open>Keys that compare unequal to themselves\<close>

lemma dict_get_irrefl:
  assumes "symp keq" "transp keq" "\<not> keq p p"
  shows "dict_get keq m p = None"
proof (induction m)
  case Nil show ?case by simp
next
  case (Cons kv m)
  obtain k v where kv: "kv = (k, v)" by (cases kv)
  have "\<not> keq k p" using assms by (meson sympD transpD)
  then show ?case using Cons kv by simp
qed

lemma node_loop_error: "node_loop keq m ids ps = Inl e \<Longrightarrow> e = KeyError"
proof (induction ps arbitrary: m ids)
  case Nil then show ?case by simp
next
  case (Cons p ps)
  then show ?case by (auto simp: Let_def split: option.splits if_splits)
qed

lemma node_loop_irrefl:
  assumes "symp keq" "transp keq"
  shows "\<exists>p \<in> set ps. \<not> keq p p \<Longrightarrow> node_loop keq m ids ps = Inl KeyError"
proof (induction ps arbitrary: m ids)
  case Nil then show ?case by simp
next
  case (Cons p ps)
  let ?m = "if dict_get keq m p = None then m @ [(p, length m)] else m"
  show ?case
  proof (cases "dict_get keq ?m p")
    case None
    then show ?thesis by (simp add: Let_def)
  next
    case (Some i)
    then have "keq p p" using dict_get_irrefl[OF assms, of p ?m] by auto
    then have "\<exists>p \<in> set ps. \<not> keq p p" using Cons.prems by auto
    from Cons.IH[OF this] show ?thesis using Some by (simp add: Let_def)
  qed
qed

lemma part_loop_error:
  "\<forall>p \<in> set parts. f p = Inr (g p) \<Longrightarrow> part_loop keq f m xe parts = Inl e \<Longrightarrow> e = KeyError"
proof (induction parts arbitrary: m xe)
  case Nil then show ?case by simp
next
  case (Cons p parts)
  have fp: "f p = Inr (g p)" using Cons.prems(1) by simp
  have rest: "\<forall>q \<in> set parts. f q = Inr (g q)" using Cons.prems(1) by simp
  show ?case
  proof (cases "node_loop keq m [] (g p)")
    case (Inl e')
    then show ?thesis using Cons.prems(2) node_loop_error[OF Inl] by (simp add: fp)
  next
    case (Inr r)
    then show ?thesis using Cons.prems(2) Cons.IH[OF rest]
      by (cases r) (simp add: fp)
  qed
qed

lemma part_loop_irrefl:
  assumes "symp keq" "transp keq"
  shows "\<forall>p \<in> set parts. f p = Inr (g p) \<Longrightarrow> \<exists>p \<in> set parts. \<exists>pt \<in> set (g p). \<not> keq pt pt
     \<Longrightarrow> part_loop keq f m xe parts = Inl KeyError"
proof (induction parts arbitrary: m xe)
  case Nil then show ?case by simp
next
  case (Cons p parts)
  have fp: "f p = Inr (g p)" using Cons.prems(1) by simp
  have rest: "\<forall>q \<in> set parts. f q = Inr (g q)" using Cons.prems(1) by simp
  show ?case
  proof (cases "node_loop keq m [] (g p)")
    case (Inl e')
    then show ?thesis using node_loop_error[OF Inl] by (simp add: fp)
  next
    case (Inr r)
    have "\<not> (\<exists>pt \<in> set (g p). \<not> keq pt pt)"
      using node_loop_irrefl[OF assms, of "g p" m "[]"] Inr by auto
    then have "\<exists>p \<in> set parts. \<exists>pt \<in> set (g p). \<not> keq pt pt" using Cons.prems(2) by auto
    from Cons.IH[OF rest this] show ?thesis using Inr by (cases r) (simp add: fp)
  qed
qed

lemma elem_loop_irrefl:
  assumes "symp keq" "transp keq"
  shows "\<forall>e \<in> set es. \<forall>p \<in> set parts. ev e p = Inr (g e p)
     \<Longrightarrow> \<exists>e \<in> set es. \<exists>p \<in> set parts. \<exists>pt \<in> set (g e p). \<not> keq pt pt
     \<Longrightarrow> elem_loop keq ev m xe parts es = Inl KeyError"
proof (induction es arbitrary: m xe)
  case Nil then show ?case by simp
next
  case (Cons e es)
  have fe: "\<forall>p \<in> set parts. ev e p = Inr (g e p)" using Cons.prems(1) by simp
  have rest: "\<forall>e \<in> set es. \<forall>p \<in> set parts. ev e p = Inr (g e p)" using Cons.prems(1) by simp
  show ?case
  proof (cases "part_loop keq (ev e) m xe parts")
    case (Inl e')
    then show ?thesis using part_loop_error[OF fe Inl] by simp
  next
    case (Inr r)
    have "\<not> (\<exists>p \<in> set parts. \<exists>pt \<in> set (g e p). \<not> keq pt pt)"
      using part_loop_irrefl[OF assms fe, of m xe] Inr by auto
    then have "\<exists>e \<in> set es. \<exists>p \<in> set parts. \<exists>pt \<in> set (g e p). \<not> keq pt pt"
      using Cons.prems(2) by auto
    from Cons.IH[OF rest this] show ?thesis using Inr by (cases r) simp
  qed
qed

subsection \<open>Partitions of the parametric cube\<close>

lemma transpose_columns:
  assumes "\<forall>row \<in> set grid. length row = 3"
  shows "transpose [map f (column grid 0), map g (column grid 1), map h (column grid 2)]
       = map (\<lambda>xi. [f (xi ! 0), g (xi ! 1), h (xi ! 2)]) grid"
proof -
  let ?XS = "[map f (column grid 0), map g (column grid 1), map h (column grid 2)]"
  have "transpose ?XS = map (\<lambda>i. map (\<lambda>j. ?XS ! j ! i) [0..<length ?XS]) [0..<length grid]"
    by (rule transpose_rectangle) (auto simp: column_def nth_Cons' )
  also have "\<dots> = map (\<lambda>i. map (\<lambda>j. ?XS ! j ! i) [0, 1, 2]) [0..<length grid]"
    by (simp add: numeral_3_eq_3 numeral_2_eq_2)
  also have "\<dots> = map (\<lambda>xi. [f (xi ! 0), g (xi ! 1), h (xi ! 2)]) grid"
    by (rule nth_equalityI) (auto simp: column_def)
  finally show ?thesis .
qed

lemma remap_map: "remap col b = map (affine b) col"
  by (simp add: remap_def affine_def)

lemma xi1_part:
  assumes "\<forall>row \<in> set grid. length row = 3"
  shows "transpose [remap (column grid 0) b, column grid 1, column grid 2]
       = map (\<lambda>xi. [affine b (xi ! 0), xi ! 1, xi ! 2]) grid"
  using transpose_columns[OF assms, of "affine b" "\<lambda>x. x" "\<lambda>x. x"] by (simp add: remap_map)

lemma xi2_part:
  assumes "\<forall>row \<in> set grid. length row = 3"
  shows "transpose [column grid 0, remap (column grid 1) b, column grid 2]
       = map (\<lambda>xi. [xi ! 0, affine b (xi ! 1), xi ! 2]) grid"
  using transpose_columns[OF assms, of "\<lambda>x. x" "affine b" "\<lambda>x. x"] by (simp add: remap_map)

lemma xi3_part:
  assumes "\<forall>row \<in> set grid. length row = 3"
  shows "transpose [column grid 0, column grid 1, remap (column grid 2) b]
       = map (\<lambda>xi. [xi ! 0, xi ! 1, affine b (xi ! 2)]) grid"
  using transpose_columns[OF assms, of "\<lambda>x. x" "\<lambda>x. x" "affine b"] by (simp add: remap_map)

lemma full_part:
  assumes "\<forall>row \<in> set grid. length row = 3"
  shows "transpose [remap (column grid 0) b1, remap (column grid 1) b2, remap (column grid 2) b3]
       = map (\<lambda>xi. [affine b1 (xi ! 0), affine b2 (xi ! 1), affine b3 (xi ! 2)]) grid"
  using transpose_columns[OF assms, of "affine b1" "affine b2" "affine b3"] by (simp add: remap_map)

lemma grid_row_length: "length (grid_row n r) = 3"
  by (simp add: grid_row_def)

lemma canonical_grid:
  assumes "get_num_elem_nodes basis = Inr nn"
  shows "\<exists>n. 2 \<le> n \<and> n \<le> 4 \<and> nn = [int n, int n, int n] \<and> basis_counts basis = Inr [n, n, n] \<and>
             generate_xi_grid nn 3 = Inr (map (grid_row n) [0..<n * n * n])"
proof -
  consider "basis = [''L1'', ''L1'', ''L1'']" "nn = [2, 2, 2]"
    | "basis = [''L2'', ''L2'', ''L2'']" "nn = [3, 3, 3]"
    | "basis = [''L3'', ''L3'', ''L3'']" "nn = [4, 4, 4]"
    using assms by (auto simp: get_num_elem_nodes_def split: if_splits)
  then show ?thesis
  proof cases
    case 1
    have "generate_xi_grid [int 2, int 2, int 2] 3 = Inr (map (grid_row 2) [0..<2 * 2 * 2])"
      by (rule generate_xi_grid_rows) simp
    moreover have "basis_counts basis = Inr [2, 2, 2]"
      by (simp add: 1 local_node_count_def)
    ultimately show ?thesis using 1 by (intro exI[of _ 2]) simp
  next
    case 2
    have "generate_xi_grid [int 3, int 3, int 3] 3 = Inr (map (grid_row 3) [0..<3 * 3 * 3])"
      by (rule generate_xi_grid_rows) simp
    moreover have "basis_counts basis = Inr [3, 3, 3]"
      by (simp add: 2 local_node_count_def)
    ultimately show ?thesis using 2 by (intro exI[of _ 3]) simp
  next
    case 3
    have "generate_xi_grid [int 4, int 4, int 4] 3 = Inr (map (grid_row 4) [0..<4 * 4 * 4])"
      by (rule generate_xi_grid_rows) simp
    moreover have "basis_counts basis = Inr [4, 4, 4]"
      by (simp add: 3 local_node_count_def)
    ultimately show ?thesis using 3 by (intro exI[of _ 4]) simp
  qed
qed

lemma canonical_grid_rows:
  assumes "get_num_elem_nodes basis = Inr nn" "generate_xi_grid nn 3 = Inr grid"
  shows "\<forall>row \<in> set grid. length row = 3"
  using canonical_grid[OF assms(1)] assms(2) by (auto simp: grid_row_length)

lemma canonical_grid_length:
  assumes "get_num_elem_nodes basis = Inr nn" "generate_xi_grid nn 3 = Inr grid"
  shows "\<exists>counts. basis_counts basis = Inr counts \<and> length grid = prod_list counts"
  using canonical_grid[OF assms(1)] assms(2) by auto

lemma length_elem_partitions: "length (elem_partitions fac) = nat fac"
  by (simp add: elem_partitions_def)




subsection \<open>Construction of the refined mesh\<close>

lemma add_nodes_enum:
  "\<forall>n \<in> set (nodes m). nid n \<le> int k \<Longrightarrow>
   add_nodes m (enumerate k xn)
     = Inr (m\<lparr>P := P m @ concat xn, nodes := nodes m @ refined_nodes (length (P m)) k xn\<rparr>)"
proof (induction xn arbitrary: m k)
  case Nil show ?case by simp
next
  case (Cons p ps)
  let ?m = "m\<lparr>P := P m @ p,
               nodes := nodes m @
                 [\<lparr>nid = int k + 1, ngroup = ''_default'', nshape = [length p],
                   noffset = length (P m)\<rparr>]\<rparr>"
  have fresh: "int k + 1 \<notin> set (map nid (nodes m))" using Cons.prems by fastforce
  have step: "add_stdnode m (int k + 1) ([length p], p) ''_default'' = Inr ?m"
    using fresh by (simp add: add_stdnode_def wf_array_def size_of_def)
  have inv: "\<forall>n \<in> set (nodes ?m). nid n \<le> int (Suc k)" using Cons.prems by fastforce
  show ?case
    by (simp add: step Cons.IH[OF inv])
qed

lemma add_elements_form:
  "add_elements m basis xe (enumerate k (drop k xe)) = Inr m' \<Longrightarrow>
   m' = m\<lparr>elements := elements m @ map (refined_element basis) (enumerate k (drop k xe))\<rparr>"
proof (induction "length xe - k" arbitrary: k m)
  case 0
  then show ?case by simp
next
  case (Suc d)
  then have k: "k < length xe" by simp
  have dr: "drop k xe = xe ! k # drop (Suc k) xe" using k by (simp add: Cons_nth_drop_Suc)
  from Suc.prems obtain m1 where
    m1: "add_element m (int k + 1) basis (map (\<lambda>i. int i + 1) (xe ! k)) = Inr m1"
    and rest: "add_elements m1 basis xe (enumerate (Suc k) (drop (Suc k) xe)) = Inr m'"
    by (auto simp: dr bind_Inr_iff)
  have m1': "m1 = m\<lparr>elements := elements m @ [refined_element basis (k, xe ! k)]\<rparr>"
    using m1 by (auto simp: add_element_def bind_Inr_iff refined_element_def split: if_splits)
  have "d = length xe - Suc k" using Suc.hyps(2) by simp
  from Suc.hyps(1)[OF this rest] show ?case
    by (simp add: m1' dr)
qed

lemma add_elements_ok:
  assumes "basis_counts basis = Inr counts" "\<forall>row \<in> set xe. length row = prod_list counts"
  shows "\<forall>e \<in> set (elements m). eid e \<le> int k \<Longrightarrow>
         \<exists>m'. add_elements m basis xe (enumerate k (drop k xe)) = Inr m'"
proof (induction "length xe - k" arbitrary: k m)
  case 0
  then show ?case by simp
next
  case (Suc d)
  then have k: "k < length xe" by simp
  have dr: "drop k xe = xe ! k # drop (Suc k) xe" using k by (simp add: Cons_nth_drop_Suc)
  let ?m = "m\<lparr>elements := elements m @ [refined_element basis (k, xe ! k)]\<rparr>"
  have fresh: "int k + 1 \<notin> set (map eid (elements m))" using Suc.prems by fastforce
  have len: "length (xe ! k) = prod_list counts" using assms(2) k by simp
  have m1: "add_element m (int k + 1) basis (map (\<lambda>i. int i + 1) (xe ! k)) = Inr ?m"
    using fresh len by (simp add: add_element_def assms(1) refined_element_def)
  have inv: "\<forall>e \<in> set (elements ?m). eid e \<le> int (Suc k)"
    using Suc.prems by (fastforce simp: refined_element_def)
  have "d = length xe - Suc k" using Suc.hyps(2) by simp
  from Suc.hyps(1)[OF this inv] show ?case by (simp add: dr m1)
qed

lemma create_morphic_mesh_form:
  fixes xn :: "'c list list"
  assumes "create_morphic_mesh basis xn xe = Inr rm"
  shows "rm = \<lparr>P = concat xn, nodes = refined_nodes 0 0 xn,
               elements = map (refined_element basis) (enumerate 0 xe), generated = True\<rparr>"
proof -
  have n: "add_nodes (Mesh :: 'c mesh) (enumerate 0 xn)
         = Inr ((Mesh :: 'c mesh)\<lparr>P := P (Mesh :: 'c mesh) @ concat xn, nodes := nodes (Mesh :: 'c mesh) @ refined_nodes (length (P (Mesh :: 'c mesh))) 0 xn\<rparr>)"
    by (rule add_nodes_enum) (simp add: Mesh_def)
  from assms obtain m2 where
    "add_elements ((Mesh :: 'c mesh)\<lparr>P := P (Mesh :: 'c mesh) @ concat xn, nodes := nodes (Mesh :: 'c mesh) @ refined_nodes (length (P (Mesh :: 'c mesh))) 0 xn\<rparr>)
        basis xe (enumerate 0 (drop 0 xe)) = Inr m2" "rm = generate m2 True"
    by (auto simp: create_morphic_mesh_def n bind_Inr_iff)
  from add_elements_form[OF this(1)] this(2) show ?thesis
    by (simp add: Mesh_def generate_def)
qed

lemma create_morphic_mesh_ok:
  fixes xn :: "'c list list"
  assumes "basis_counts basis = Inr counts" "\<forall>row \<in> set xe. length row = prod_list counts"
  shows "\<exists>rm. create_morphic_mesh basis xn xe = Inr rm"
proof -
  let ?m = "(Mesh :: 'c mesh)\<lparr>P := P (Mesh :: 'c mesh) @ concat xn, nodes := nodes (Mesh :: 'c mesh) @ refined_nodes (length (P (Mesh :: 'c mesh))) 0 xn\<rparr>"
  have n: "add_nodes (Mesh :: 'c mesh) (enumerate 0 xn) = Inr ?m"
    by (rule add_nodes_enum) (simp add: Mesh_def)
  have "\<forall>e \<in> set (elements ?m). eid e \<le> int 0" by (simp add: Mesh_def)
  from add_elements_ok[OF assms this] obtain m2 where
    "add_elements ?m basis xe (enumerate 0 (drop 0 xe)) = Inr m2" by blast
  then show ?thesis by (simp add: create_morphic_mesh_def n)
qed

lemma refined_nodes_length: "length (refined_nodes off k xn) = length xn"
  by (induction xn arbitrary: off k) auto

lemma refined_nodes_nth:
  "i < length xn \<Longrightarrow>
   refined_nodes off k xn ! i
     = \<lparr>nid = int (k + i) + 1, ngroup = ''_default'', nshape = [length (xn ! i)],
        noffset = off + length (concat (take i xn))\<rparr>"
proof (induction xn arbitrary: off k i)
  case Nil then show ?case by simp
next
  case (Cons p ps)
  show ?case
  proof (cases i)
    case 0 then show ?thesis by simp
  next
    case (Suc j)
    then have "j < length ps" using Cons.prems by simp
    from Cons.IH[OF this, of "off + length p" "Suc k"] show ?thesis by (simp add: Suc)
  qed
qed

lemma concat_region:
  assumes "i < length xn"
  shows "take (length (xn ! i)) (drop (length (concat (take i xn))) (concat xn)) = xn ! i"
proof -
  have "xn = take i xn @ xn ! i # drop (Suc i) xn" using assms by (rule id_take_nth_drop)
  then have "concat xn = concat (take i xn) @ xn ! i @ concat (drop (Suc i) xn)"
    by (metis concat.simps(2) concat_append)
  then show ?thesis by simp
qed

lemma refined_node_values:
  assumes "i < length xn"
  shows "node_values \<lparr>P = concat xn, nodes = refined_nodes 0 0 xn, elements = es, generated = g\<rparr>
           (refined_nodes 0 0 xn ! i) = ([length (xn ! i)], xn ! i)"
  by (simp add: node_values_def refined_nodes_nth[OF assms] size_of_def concat_region[OF assms])

subsection \<open>The refinement functions\<close>

lemma xi1_unfold:
  assumes "get_num_elem_nodes basis = Inr nn" "generate_xi_grid nn 3 = Inr grid"
  shows "mesh_refine_along_xi1 (=) ev mesh basis fac
       = assemble basis (elem_loop (=) (ev mesh) [] [] (xi_partitions_xi1 grid (elem_partitions fac))
           (elements mesh))"
  by (simp add: mesh_refine_along_xi1_def assms assemble_def list.rel_eq)

lemma xi2_unfold:
  assumes "get_num_elem_nodes basis = Inr nn" "generate_xi_grid nn 3 = Inr grid"
  shows "mesh_refine_along_xi2 (=) ev mesh basis fac
       = assemble basis (elem_loop (=) (ev mesh) [] [] (xi_partitions_xi2 grid (elem_partitions fac))
           (elements mesh))"
  by (simp add: mesh_refine_along_xi2_def assms assemble_def list.rel_eq)

lemma xi3_unfold:
  assumes "get_num_elem_nodes basis = Inr nn" "generate_xi_grid nn 3 = Inr grid"
  shows "mesh_refine_along_xi3 (=) ev mesh basis fac
       = assemble basis (elem_loop (=) (ev mesh) [] [] (xi_partitions_xi3 grid (elem_partitions fac))
           (elements mesh))"
  by (simp add: mesh_refine_along_xi3_def assms assemble_def list.rel_eq)

lemma full_unfold:
  assumes "get_num_elem_nodes basis = Inr nn" "generate_xi_grid nn 3 = Inr grid"
  shows "full_refinement (=) ev mesh basis [f1, f2, f3]
       = assemble basis (elem_loop (=) (ev mesh) [] []
           (xi_partitions_full grid (elem_partitions f1) (elem_partitions f2) (elem_partitions f3))
           (elements mesh))"
  by (simp add: full_refinement_def assms assemble_def py_index_def list.rel_eq)

lemma part_loop_Inr:
  "part_loop keq f m xe parts = Inr r \<Longrightarrow> \<forall>p \<in> set parts. f p = Inr (projr (f p))"
proof (induction parts arbitrary: m xe)
  case Nil show ?case by simp
next
  case (Cons p parts)
  from Cons.prems obtain pts m1 ids where
    "f p = Inr pts" "part_loop keq f m1 (xe @ [ids]) parts = Inr r"
    by (auto simp: bind_Inr_iff)
  with Cons.IH show ?case by auto
qed

lemma elem_loop_Inr:
  "elem_loop keq ev m xe parts es = Inr r
     \<Longrightarrow> \<forall>e \<in> set es. \<forall>p \<in> set parts. ev e p = Inr (projr (ev e p))"
proof (induction es arbitrary: m xe)
  case Nil show ?case by simp
next
  case (Cons e es)
  from Cons.prems obtain m1 xe1 where
    a: "part_loop keq (ev e) m xe parts = Inr (m1, xe1)" and b: "elem_loop keq ev m1 xe1 parts es = Inr r"
    by (auto simp: bind_Inr_iff)
  from part_loop_Inr[OF a] Cons.IH[OF b] show ?case by auto
qed

lemma enum_dict_Nil: "enum_dict [] = []"
  by (simp add: enum_dict_def)

lemma dedup_result_first_seen:
  "dedup_result rows (first_seen (concat rows)) (map (map (index_of (first_seen (concat rows)))) rows)"
proof -
  let ?K = "first_seen (concat rows)"
  have s: "set ?K = set (concat rows)" by (simp add: first_seen_def set_first_seen_from)
  have d: "distinct ?K" by (simp add: first_seen_def distinct_first_seen_from)
  show ?thesis
    unfolding dedup_result_def using d
    by (auto simp only: s index_of_less nth_index_of index_of_inj simp_thms)
qed

lemma assemble_loops:
  assumes "assemble basis (elem_loop (=) ev [] [] parts es) = Inr (rm, xn, xe)"
  shows "dedup_result (evaluated_rows (\<lambda>e p. projr (ev e p)) es parts) xn xe \<and>
         create_morphic_mesh basis xn xe = Inr rm"
proof -
  from assms obtain mapping xe' where
    l: "elem_loop (=) ev [] [] parts es = Inr (mapping, xe')"
    and c: "create_morphic_mesh basis (map fst mapping) xe' = Inr rm"
    and eq: "xn = map fst mapping" "xe = xe'"
    by (auto simp: assemble_def bind_Inr_iff Let_def)
  let ?g = "\<lambda>e p. projr (ev e p)"
  let ?rows = "concat (map (\<lambda>e. map (?g e) parts) es)"
  have "elem_loop (=) ev (enum_dict []) [] parts es
      = Inr (enum_dict (first_seen_from [] (concat ?rows)),
             [] @ map (map (index_of (first_seen_from [] (concat ?rows)))) ?rows)"
    by (rule elem_loop_enum) (use elem_loop_Inr[OF l] in blast)
  with l have "mapping = enum_dict (first_seen (concat ?rows))"
    "xe' = map (map (index_of (first_seen (concat ?rows)))) ?rows"
    by (simp_all add: enum_dict_Nil first_seen_def)
  then have "xn = first_seen (concat ?rows)" "xe = map (map (index_of xn)) ?rows"
    using eq by (simp_all add: map_fst_enum_dict)
  then show ?thesis
    using dedup_result_first_seen[of ?rows] c eq by (simp add: evaluated_rows_def)
qed

lemma assemble_ok:
  assumes "evaluates ev es parts pts"
    and "basis_counts basis = Inr counts"
    and "\<forall>e \<in> set es. \<forall>p \<in> set parts. length (pts e p) = prod_list counts"
  shows "\<exists>rm xn xe. assemble basis (elem_loop (=) ev [] [] parts es) = Inr (rm, xn, xe)"
proof -
  let ?rows = "concat (map (\<lambda>e. map (pts e) parts) es)"
  let ?K = "first_seen_from [] (concat ?rows)"
  have l: "elem_loop (=) ev (enum_dict []) [] parts es
      = Inr (enum_dict ?K, [] @ map (map (index_of ?K)) ?rows)"
    by (rule elem_loop_enum) (use assms(1) in \<open>simp add: evaluates_def\<close>)
  have "\<forall>row \<in> set (map (map (index_of ?K)) ?rows). length row = prod_list counts"
    using assms(3) by auto
  from create_morphic_mesh_ok[OF assms(2) this] obtain rm where
    "create_morphic_mesh basis ?K (map (map (index_of ?K)) ?rows) = Inr rm" by blast
  then show ?thesis using l
    by (simp add: assemble_def enum_dict_Nil map_fst_enum_dict Let_def)
qed

subsection \<open>The cross product of the partitions\<close>

lemma map_nth_fun: "map (\<lambda>i. f (xs ! i)) [0..<length xs] = map f xs"
  by (rule nth_equalityI) auto

lemma concat_concat_map: "concat (concat (map f xs)) = concat (map (\<lambda>x. concat (f x)) xs)"
  by (induction xs) auto

lemma nested_concat:
  "concat (map (\<lambda>a. concat (map (\<lambda>b. map (\<lambda>c. h a b c) cs) bs)) as)
   = map (\<lambda>r. h (as ! (r div (length bs * length cs))) (bs ! ((r div length cs) mod length bs))
                 (cs ! (r mod length cs)))
         [0..<length as * length bs * length cs]"
proof -
  have "concat (map (\<lambda>a. concat (map (\<lambda>b. map (\<lambda>c. h a b c) cs) bs)) as)
      = reshape3 (map (\<lambda>a. map (\<lambda>b. map (\<lambda>c. h a b c) cs) bs) as)"
    by (simp add: reshape3_def concat_concat_map)
  also have "map (\<lambda>a. map (\<lambda>b. map (\<lambda>c. h a b c) cs) bs) as
      = map (\<lambda>i. map (\<lambda>j. map (\<lambda>k. h (as ! i) (bs ! j) (cs ! k)) [0..<length cs])
               [0..<length bs]) [0..<length as]"
  proof -
    have 1: "\<And>a b. map (\<lambda>c. h a b c) cs = map (\<lambda>k. h a b (cs ! k)) [0..<length cs]"
      by (rule map_nth_fun[symmetric])
    have 2: "\<And>a. map (\<lambda>b. map (\<lambda>k. h a b (cs ! k)) [0..<length cs]) bs
               = map (\<lambda>j. map (\<lambda>k. h a (bs ! j) (cs ! k)) [0..<length cs]) [0..<length bs]"
      by (rule map_nth_fun[symmetric])
    have 3: "map (\<lambda>a. map (\<lambda>j. map (\<lambda>k. h a (bs ! j) (cs ! k)) [0..<length cs]) [0..<length bs]) as
               = map (\<lambda>i. map (\<lambda>j. map (\<lambda>k. h (as ! i) (bs ! j) (cs ! k)) [0..<length cs])
               [0..<length bs]) [0..<length as]"
      by (rule map_nth_fun[symmetric])
    show ?thesis unfolding 1 2 3 ..
  qed
  also have "reshape3 \<dots> = map (\<lambda>r. h (as ! (r div (length bs * length cs)))
        (bs ! ((r div length cs) mod length bs)) (cs ! (r mod length cs)))
         [0..<length as * length bs * length cs]"
    by (rule flat3)
  finally show ?thesis .
qed

lemma xi_partitions_full_eq:
  assumes "\<forall>row \<in> set grid. length row = 3"
  shows "xi_partitions_full grid p1 p2 p3
       = map (\<lambda>r. map (\<lambda>xi. [affine (p1 ! (r div (length p2 * length p3))) (xi ! 0),
                               affine (p2 ! ((r div length p3) mod length p2)) (xi ! 1),
                               affine (p3 ! (r mod length p3)) (xi ! 2)]) grid)
             [0..<length p1 * length p2 * length p3]"
  unfolding xi_partitions_full_def full_part[OF assms] by (rule nested_concat)


lemma assemble_run:
  assumes "evaluates ev es parts pts"
    and "basis_counts basis = Inr counts"
    and "\<forall>e \<in> set es. \<forall>p \<in> set parts. length (pts e p) = prod_list counts"
    and "xn = first_seen (concat (evaluated_rows pts es parts))"
    and "xe = map (map (index_of xn)) (evaluated_rows pts es parts)"
  shows "assemble basis (elem_loop (=) ev [] [] parts es) = Inr (refined_mesh basis xn xe, xn, xe)"
proof -
  from assemble_ok[OF assms(1-3)] obtain rm xn' xe' where
    r: "assemble basis (elem_loop (=) ev [] [] parts es) = Inr (rm, xn', xe')" by blast
  have same: "evaluated_rows (\<lambda>e p. projr (ev e p)) es parts = evaluated_rows pts es parts"
  proof -
    have "\<And>e p. e \<in> set es \<Longrightarrow> p \<in> set parts \<Longrightarrow> projr (ev e p) = pts e p"
      using assms(1) by (simp add: evaluates_def)
    then show ?thesis by (simp add: evaluated_rows_def cong: map_cong)
  qed
  from assemble_loops[OF r] have
    "dedup_result (evaluated_rows pts es parts) xn' xe'" "create_morphic_mesh basis xn' xe' = Inr rm"
    by (simp_all add: same)
  then have "xn' = xn" "xe' = xe" "rm = refined_mesh basis xn xe"
    using assms(4,5) create_morphic_mesh_form[of basis xn' xe' rm]
    by (simp_all add: dedup_result_def refined_mesh_def)
  with r show ?thesis by simp
qed


lemma xi1_parts:
  assumes "\<forall>row \<in> set grid. length row = 3"
  shows "xi_partitions_xi1 grid parts
       = map (\<lambda>(lo, hi). map (\<lambda>xi. [xi ! 0 * (hi - lo) + lo, xi ! 1, xi ! 2]) grid) parts"
  unfolding xi_partitions_xi1_def xi1_part[OF assms] by (simp add: affine_def case_prod_beta)

lemma xi2_parts:
  assumes "\<forall>row \<in> set grid. length row = 3"
  shows "xi_partitions_xi2 grid parts
       = map (\<lambda>(lo, hi). map (\<lambda>xi. [xi ! 0, xi ! 1 * (hi - lo) + lo, xi ! 2]) grid) parts"
  unfolding xi_partitions_xi2_def xi2_part[OF assms] by (simp add: affine_def case_prod_beta)

lemma xi3_parts:
  assumes "\<forall>row \<in> set grid. length row = 3"
  shows "xi_partitions_xi3 grid parts
       = map (\<lambda>(lo, hi). map (\<lambda>xi. [xi ! 0, xi ! 1, xi ! 2 * (hi - lo) + lo]) grid) parts"
  unfolding xi_partitions_xi3_def xi3_part[OF assms] by (simp add: affine_def case_prod_beta)

lemma xi1_parts_like:
  assumes "\<forall>row \<in> set grid. length row = 3"
  shows "\<forall>p \<in> set (xi_partitions_xi1 grid parts). grid_like grid p"
  by (auto simp: xi1_parts[OF assms] grid_like_def)

lemma xi2_parts_like:
  assumes "\<forall>row \<in> set grid. length row = 3"
  shows "\<forall>p \<in> set (xi_partitions_xi2 grid parts). grid_like grid p"
  by (auto simp: xi2_parts[OF assms] grid_like_def)

lemma xi3_parts_like:
  assumes "\<forall>row \<in> set grid. length row = 3"
  shows "\<forall>p \<in> set (xi_partitions_xi3 grid parts). grid_like grid p"
  by (auto simp: xi3_parts[OF assms] grid_like_def)

lemma full_parts_like:
  assumes "\<forall>row \<in> set grid. length row = 3"
  shows "\<forall>p \<in> set (xi_partitions_full grid p1 p2 p3). grid_like grid p"
  by (auto simp: xi_partitions_full_eq[OF assms] grid_like_def)

lemma length_xi_partitions_full:
  assumes "\<forall>row \<in> set grid. length row = 3"
  shows "length (xi_partitions_full grid p1 p2 p3) = length p1 * length p2 * length p3"
  by (simp add: xi_partitions_full_eq[OF assms])

lemma length_evaluated_rows: "length (evaluated_rows pts es parts) = length es * length parts"
  by (induction es) (auto simp: evaluated_rows_def)


lemma xi1_run:
  assumes "get_num_elem_nodes basis = Inr nn" "generate_xi_grid nn 3 = Inr grid"
    and "evaluates (ev mesh) (elements mesh) (xi_partitions_xi1 grid (elem_partitions fac)) pts"
    and "\<forall>e \<in> set (elements mesh). \<forall>p \<in> set (xi_partitions_xi1 grid (elem_partitions fac)).
           length (pts e p) = length p"
    and "xn = first_seen (concat (evaluated_rows pts (elements mesh)
               (xi_partitions_xi1 grid (elem_partitions fac))))"
    and "xe = map (map (index_of xn)) (evaluated_rows pts (elements mesh)
               (xi_partitions_xi1 grid (elem_partitions fac)))"
  shows "mesh_refine_along_xi1 (=) ev mesh basis fac = Inr (refined_mesh basis xn xe, xn, xe)"
proof -
  from canonical_grid_length[OF assms(1,2)] obtain counts where
    c: "basis_counts basis = Inr counts" "length grid = prod_list counts" by blast
  have "\<forall>e \<in> set (elements mesh). \<forall>p \<in> set (xi_partitions_xi1 grid (elem_partitions fac)).
           length (pts e p) = prod_list counts"
    using assms(4) xi1_parts_like[OF canonical_grid_rows[OF assms(1,2)]] c(2)
    by (simp add: grid_like_def)
  from assemble_run[OF assms(3) c(1) this assms(5,6)] show ?thesis
    by (simp add: xi1_unfold[OF assms(1,2)])
qed

lemma xi2_run:
  assumes "get_num_elem_nodes basis = Inr nn" "generate_xi_grid nn 3 = Inr grid"
    and "evaluates (ev mesh) (elements mesh) (xi_partitions_xi2 grid (elem_partitions fac)) pts"
    and "\<forall>e \<in> set (elements mesh). \<forall>p \<in> set (xi_partitions_xi2 grid (elem_partitions fac)).
           length (pts e p) = length p"
    and "xn = first_seen (concat (evaluated_rows pts (elements mesh)
               (xi_partitions_xi2 grid (elem_partitions fac))))"
    and "xe = map (map (index_of xn)) (evaluated_rows pts (elements mesh)
               (xi_partitions_xi2 grid (elem_partitions fac)))"
  shows "mesh_refine_along_xi2 (=) ev mesh basis fac = Inr (refined_mesh basis xn xe, xn, xe)"
proof -
  from canonical_grid_length[OF assms(1,2)] obtain counts where
    c: "basis_counts basis = Inr counts" "length grid = prod_list counts" by blast
  have "\<forall>e \<in> set (elements mesh). \<forall>p \<in> set (xi_partitions_xi2 grid (elem_partitions fac)).
           length (pts e p) = prod_list counts"
    using assms(4) xi2_parts_like[OF canonical_grid_rows[OF assms(1,2)]] c(2)
    by (simp add: grid_like_def)
  from assemble_run[OF assms(3) c(1) this assms(5,6)] show ?thesis
    by (simp add: xi2_unfold[OF assms(1,2)])
qed

lemma xi3_run:
  assumes "get_num_elem_nodes basis = Inr nn" "generate_xi_grid nn 3 = Inr grid"
    and "evaluates (ev mesh) (elements mesh) (xi_partitions_xi3 grid (elem_partitions fac)) pts"
    and "\<forall>e \<in> set (elements mesh). \<forall>p \<in> set (xi_partitions_xi3 grid (elem_partitions fac)).
           length (pts e p) = length p"
    and "xn = first_seen (concat (evaluated_rows pts (elements mesh)
               (xi_partitions_xi3 grid (elem_partitions fac))))"
    and "xe = map (map (index_of xn)) (evaluated_rows pts (elements mesh)
               (xi_partitions_xi3 grid (elem_partitions fac)))"
  shows "mesh_refine_along_xi3 (=) ev mesh basis fac = Inr (refined_mesh basis xn xe, xn, xe)"
proof -
  from canonical_grid_length[OF assms(1,2)] obtain counts where
    c: "basis_counts basis = Inr counts" "length grid = prod_list counts" by blast
  have "\<forall>e \<in> set (elements mesh). \<forall>p \<in> set (xi_partitions_xi3 grid (elem_partitions fac)).
           length (pts e p) = prod_list counts"
    using assms(4) xi3_parts_like[OF canonical_grid_rows[OF assms(1,2)]] c(2)
    by (simp add: grid_like_def)
  from assemble_run[OF assms(3) c(1) this assms(5,6)] show ?thesis
    by (simp add: xi3_unfold[OF assms(1,2)])
qed

lemma full_run:
  assumes "get_num_elem_nodes basis = Inr nn" "generate_xi_grid nn 3 = Inr grid"
    and "parts = xi_partitions_full grid (elem_partitions f1) (elem_partitions f2) (elem_partitions f3)"
    and "evaluates (ev mesh) (elements mesh) parts pts"
    and "\<forall>e \<in> set (elements mesh). \<forall>p \<in> set parts. length (pts e p) = length p"
    and "xn = first_seen (concat (evaluated_rows pts (elements mesh) parts))"
    and "xe = map (map (index_of xn)) (evaluated_rows pts (elements mesh) parts)"
  shows "full_refinement (=) ev mesh basis [f1, f2, f3] = Inr (refined_mesh basis xn xe, xn, xe)"
proof -
  from canonical_grid_length[OF assms(1,2)] obtain counts where
    c: "basis_counts basis = Inr counts" "length grid = prod_list counts" by blast
  have "\<forall>e \<in> set (elements mesh). \<forall>p \<in> set parts. length (pts e p) = prod_list counts"
    using assms(5) full_parts_like[OF canonical_grid_rows[OF assms(1,2)]] c(2)
    unfolding assms(3) by (simp add: grid_like_def)
  from assemble_run[OF assms(4) c(1) this assms(6,7)] show ?thesis
    by (simp add: full_unfold[OF assms(1,2)] assms(3))
qed

subsection \<open>Facts about the concrete mesh\<close>

lemma uc_elements: "elements unit_cube = [unit_cube_element]"
  by (simp add: unit_cube_def unit_cube_element_def)


lemma L1_counts: "get_num_elem_nodes [''L1'', ''L1'', ''L1''] = Inr [2, 2, 2]"
  by (simp add: get_num_elem_nodes_def)

lemma L1_grid: "generate_xi_grid [2, 2, 2] 3 = Inr corner_points"
  by code_simp

lemma parts_1: "elem_partitions 1 = [(0, 1)]"
  by code_simp

lemma parts_2: "elem_partitions 2 = [(0, 1 / 2), (1 / 2, 1)]"
  by code_simp

lemma xi1_halves: "xi_partitions_xi1 corner_points [(0, 1 / 2), (1 / 2, 1)] = [lower_half, upper_half]"
  by code_simp

lemma xi2_whole: "xi_partitions_xi2 corner_points [(0, 1)] = [corner_points]"
  by code_simp

lemma xi3_whole: "xi_partitions_xi3 corner_points [(0, 1)] = [corner_points]"
  by code_simp

lemma full_whole: "xi_partitions_full corner_points [(0, 1)] [(0, 1)] [(0, 1)] = [corner_points]"
  by code_simp

lemma full_halves:
  "xi_partitions_full corner_points [(0, 1 / 2), (1 / 2, 1)] [(0, 1)] [(0, 1)] = [lower_half, upper_half]"
  by code_simp


lemma uc_eval_corners: "evaluate unit_cube unit_cube_element corner_points = Inr corner_points"
  by code_simp

lemma uc_eval_lower: "evaluate unit_cube unit_cube_element lower_half = Inr lower_half"
  by code_simp

lemma uc_eval_upper: "evaluate unit_cube unit_cube_element upper_half = Inr upper_half"
  by code_simp

lemma first_seen_corners: "first_seen (concat [corner_points]) = corner_points"
  by code_simp

lemma index_corners: "map (map (index_of corner_points)) [corner_points] = [[0, 1, 2, 3, 4, 5, 6, 7]]"
  by code_simp

lemma first_seen_halves: "first_seen (concat [lower_half, upper_half]) = halved_points"
  by code_simp

lemma index_halves:
  "map (map (index_of halved_points)) [lower_half, upper_half] = halved_connectivity"
  by code_simp

lemma uc_evaluates_halves:
  "evaluates (evaluate unit_cube) (elements unit_cube) [lower_half, upper_half] (\<lambda>e p. p)"
  by (simp add: evaluates_def uc_elements uc_eval_lower uc_eval_upper)

lemma uc_evaluates_corners:
  "evaluates (evaluate unit_cube) (elements unit_cube) [corner_points] (\<lambda>e p. p)"
  by (simp add: evaluates_def uc_elements uc_eval_corners)

lemma uc_rows_halves:
  "evaluated_rows (\<lambda>e p. p) (elements unit_cube) [lower_half, upper_half] = [lower_half, upper_half]"
  by (simp add: evaluated_rows_def uc_elements)

lemma uc_rows_corners:
  "evaluated_rows (\<lambda>e p. p) (elements unit_cube) [corner_points] = [corner_points]"
  by (simp add: evaluated_rows_def uc_elements)

lemma uc_xi1_run:
  "mesh_refine_along_xi1 (=) evaluate unit_cube [''L1'', ''L1'', ''L1''] 2
     = Inr (refined_mesh [''L1'', ''L1'', ''L1''] halved_points halved_connectivity,
            halved_points, halved_connectivity)"
  apply (rule xi1_run[OF L1_counts L1_grid, where pts = "\<lambda>e p. p"])
       apply (simp_all only: parts_2 xi1_halves uc_evaluates_halves uc_rows_halves first_seen_halves
        index_halves simp_thms ball_simps)
  apply simp
  done

lemma uc_xi2_run:
  "mesh_refine_along_xi2 (=) evaluate unit_cube [''L1'', ''L1'', ''L1''] 1
     = Inr (refined_mesh [''L1'', ''L1'', ''L1''] corner_points [[0, 1, 2, 3, 4, 5, 6, 7]],
            corner_points, [[0, 1, 2, 3, 4, 5, 6, 7]])"
  apply (rule xi2_run[OF L1_counts L1_grid, where pts = "\<lambda>e p. p"])
       apply (simp_all only: parts_1 xi2_whole uc_evaluates_corners uc_rows_corners first_seen_corners
        index_corners simp_thms ball_simps)
  apply simp
  done

lemma uc_xi3_run:
  "mesh_refine_along_xi3 (=) evaluate unit_cube [''L1'', ''L1'', ''L1''] 1
     = Inr (refined_mesh [''L1'', ''L1'', ''L1''] corner_points [[0, 1, 2, 3, 4, 5, 6, 7]],
            corner_points, [[0, 1, 2, 3, 4, 5, 6, 7]])"
  apply (rule xi3_run[OF L1_counts L1_grid, where pts = "\<lambda>e p. p"])
       apply (simp_all only: parts_1 xi3_whole uc_evaluates_corners uc_rows_corners first_seen_corners
        index_corners simp_thms ball_simps)
  apply simp
  done

lemma uc_full_run:
  "full_refinement (=) evaluate unit_cube [''L1'', ''L1'', ''L1''] [2, 1, 1]
     = Inr (refined_mesh [''L1'', ''L1'', ''L1''] halved_points halved_connectivity,
            halved_points, halved_connectivity)"
  apply (rule full_run[OF L1_counts L1_grid, where pts = "\<lambda>e p. p" and parts = "[lower_half, upper_half]"])
       apply (simp_all only: parts_1 parts_2 full_halves uc_evaluates_halves uc_rows_halves first_seen_halves
        index_halves simp_thms ball_simps)
  apply simp
  done

lemma uc_full_unit_run:
  "full_refinement (=) evaluate unit_cube [''L1'', ''L1'', ''L1''] [1, 1, 1]
     = Inr (refined_mesh [''L1'', ''L1'', ''L1''] corner_points [[0, 1, 2, 3, 4, 5, 6, 7]],
            corner_points, [[0, 1, 2, 3, 4, 5, 6, 7]])"
  apply (rule full_run[OF L1_counts L1_grid, where pts = "\<lambda>e p. p" and parts = "[corner_points]"])
       apply (simp_all only: parts_1 full_whole uc_evaluates_corners uc_rows_corners first_seen_corners
        index_corners simp_thms ball_simps)
  apply simp
  done

subsection \<open>Deduplication of the evaluated points\<close>

lemma returned_points_eq: "(\<lambda>e p. projr (ev mesh e p)) = returned_points ev mesh"
  by (simp add: returned_points_def fun_eq_iff)

lemma f64_eq_symp: "symp f64_eq"
  unfolding symp_def f64_eq_def by auto

lemma f64_eq_transp: "transp f64_eq"
  unfolding transp_def f64_eq_def by auto

lemma f64_eq_refl: "f64_eq a a = (\<not> f64_is_nan a)"
  by (simp add: f64_eq_def)

lemma key_symp: "symp (list_all2 f64_eq)"
  by (rule list.rel_symp[OF f64_eq_symp])

lemma key_transp: "transp (list_all2 f64_eq)"
  by (rule list.rel_transp[OF f64_eq_transp])

lemma key_refl: "list_all2 f64_eq p p = (\<forall>c \<in> set p. \<not> f64_is_nan c)"
  by (simp add: list_all2_same f64_eq_refl)

lemma nan_free_refl: "nan_free rows = (\<forall>p \<in> set (concat rows). list_all2 f64_eq p p)"
  unfolding nan_free_def by (simp only: key_refl)

lemma key_bits:
  "\<forall>c \<in> set p. \<not> f64_is_nan c \<and> \<not> f64_is_zero c \<Longrightarrow> list_all2 f64_eq p q = (p = q)"
proof (induction p arbitrary: q)
  case Nil show ?case by auto
next
  case (Cons a p)
  show ?case
  proof (cases q)
    case Nil then show ?thesis by simp
  next
    case (Cons b q')
    have "f64_eq a b = (a = b)" using Cons.prems by (auto simp: f64_eq_def)
    then show ?thesis using Cons.IH[of q'] Cons.prems Cons by simp
  qed
qed

lemma elem_loop_keys_refl:
  assumes "symp keq" "transp keq" "elem_loop keq ev m xe parts es = Inr r"
  shows "\<forall>e \<in> set es. \<forall>p \<in> set parts. \<forall>pt \<in> set (projr (ev e p)). keq pt pt"
proof (rule ccontr)
  assume "\<not> (\<forall>e \<in> set es. \<forall>p \<in> set parts. \<forall>pt \<in> set (projr (ev e p)). keq pt pt)"
  then have ex: "\<exists>e \<in> set es. \<exists>p \<in> set parts. \<exists>pt \<in> set (projr (ev e p)). \<not> keq pt pt"
    by blast
  from elem_loop_irrefl[where keq = keq and g = "\<lambda>e p. projr (ev e p)" and ev = ev,
      OF assms(1,2) elem_loop_Inr[OF assms(3)] ex]
  show False using assms(3) by simp
qed

lemma assemble_loops_by:
  assumes "symp keq" "transp keq"
    and "assemble basis (elem_loop keq ev [] [] parts es) = Inr (rm, xn, xe)"
  shows "dedup_result_by keq (evaluated_rows (\<lambda>e p. projr (ev e p)) es parts) xn xe \<and>
         (\<forall>p \<in> set (concat (evaluated_rows (\<lambda>e p. projr (ev e p)) es parts)). keq p p) \<and>
         create_morphic_mesh basis xn xe = Inr rm"
proof -
  from assms(3) obtain mapping xe' where
    l: "elem_loop keq ev [] [] parts es = Inr (mapping, xe')"
    and c: "create_morphic_mesh basis (map fst mapping) xe' = Inr rm"
    and eq: "xn = map fst mapping" "xe = xe'"
    by (auto simp: assemble_def bind_Inr_iff Let_def)
  let ?g = "\<lambda>e p. projr (ev e p)"
  let ?rows = "concat (map (\<lambda>e. map (?g e) parts) es)"
  let ?K = "first_seen_by keq [] (concat ?rows)"
  have rf: "\<forall>e \<in> set es. \<forall>p \<in> set parts. \<forall>pt \<in> set (?g e p). keq pt pt"
    by (rule elem_loop_keys_refl[OF assms(1,2) l])
  then have r2: "\<forall>p \<in> set (concat ?rows). keq p p" by auto
  have "elem_loop keq ev (enum_dict []) [] parts es
      = Inr (enum_dict ?K, [] @ map (map (index_by keq ?K)) ?rows)"
    by (rule elem_loop_by[where keq = keq and g = ?g and ev = ev, OF elem_loop_Inr[OF l] rf])
  with l have "mapping = enum_dict ?K" "xe' = map (map (index_by keq ?K)) ?rows"
    by (simp_all add: enum_dict_Nil)
  then have "xn = ?K" "xe = map (map (index_by keq xn)) ?rows"
    using eq by (simp_all add: map_fst_enum_dict)
  then show ?thesis
    using dedup_result_by_first_seen[where keq = keq and rows = ?rows, OF assms(1,2) r2] c eq r2
    by (simp add: evaluated_rows_def)
qed

lemma assemble_irrefl:
  assumes "symp keq" "transp keq" "evaluates ev es parts pts"
    and "\<exists>p \<in> set (concat (evaluated_rows pts es parts)). \<not> keq p p"
  shows "assemble basis (elem_loop keq ev m xe parts es) = Inl KeyError"
proof -
  have e: "\<forall>e \<in> set es. \<forall>p \<in> set parts. ev e p = Inr (pts e p)"
    using assms(3) by (simp add: evaluates_def)
  have x: "\<exists>e \<in> set es. \<exists>p \<in> set parts. \<exists>pt \<in> set (pts e p). \<not> keq pt pt"
    using assms(4) by (auto simp: evaluated_rows_def)
  from elem_loop_irrefl[where keq = keq and g = pts and ev = ev, OF assms(1,2) e x]
  show ?thesis by (simp add: assemble_def)
qed

lemma assemble_run_by:
  assumes "evaluates ev es parts pts"
    and "basis_counts basis = Inr counts"
    and "\<forall>e \<in> set es. \<forall>p \<in> set parts. length (pts e p) = prod_list counts"
    and "\<forall>p \<in> set (concat (evaluated_rows pts es parts)). keq p p"
    and "xn = first_seen_by keq [] (concat (evaluated_rows pts es parts))"
    and "xe = map (map (index_by keq xn)) (evaluated_rows pts es parts)"
  shows "assemble basis (elem_loop keq ev [] [] parts es) = Inr (refined_mesh basis xn xe, xn, xe)"
proof -
  let ?rows = "concat (map (\<lambda>e. map (pts e) parts) es)"
  let ?K = "first_seen_by keq [] (concat ?rows)"
  have e: "\<forall>e \<in> set es. \<forall>p \<in> set parts. ev e p = Inr (pts e p)"
    using assms(1) by (simp add: evaluates_def)
  have rf: "\<forall>e \<in> set es. \<forall>p \<in> set parts. \<forall>pt \<in> set (pts e p). keq pt pt"
    using assms(4) by (auto simp: evaluated_rows_def)
  have l: "elem_loop keq ev (enum_dict []) [] parts es
      = Inr (enum_dict ?K, [] @ map (map (index_by keq ?K)) ?rows)"
    by (rule elem_loop_by[where keq = keq and g = pts and ev = ev, OF e rf])
  have "\<forall>row \<in> set (map (map (index_by keq ?K)) ?rows). length row = prod_list counts"
    using assms(3) by auto
  from create_morphic_mesh_ok[OF assms(2) this] obtain rm where
    c: "create_morphic_mesh basis ?K (map (map (index_by keq ?K)) ?rows) = Inr rm" by blast
  from create_morphic_mesh_form[OF c] have "rm = refined_mesh basis ?K (map (map (index_by keq ?K)) ?rows)"
    by (simp add: refined_mesh_def)
  then show ?thesis
    using l c assms(5,6)
    by (simp add: assemble_def enum_dict_Nil map_fst_enum_dict Let_def evaluated_rows_def)
qed

lemma xi1_unfold_by:
  assumes "get_num_elem_nodes basis = Inr nn" "generate_xi_grid nn 3 = Inr grid"
  shows "mesh_refine_along_xi1 ceq ev mesh basis fac
       = assemble basis (elem_loop (list_all2 ceq) (ev mesh) [] []
           (xi_partitions_xi1 grid (elem_partitions fac)) (elements mesh))"
  by (simp add: mesh_refine_along_xi1_def assms assemble_def)

lemma xi2_unfold_by:
  assumes "get_num_elem_nodes basis = Inr nn" "generate_xi_grid nn 3 = Inr grid"
  shows "mesh_refine_along_xi2 ceq ev mesh basis fac
       = assemble basis (elem_loop (list_all2 ceq) (ev mesh) [] []
           (xi_partitions_xi2 grid (elem_partitions fac)) (elements mesh))"
  by (simp add: mesh_refine_along_xi2_def assms assemble_def)

lemma xi3_unfold_by:
  assumes "get_num_elem_nodes basis = Inr nn" "generate_xi_grid nn 3 = Inr grid"
  shows "mesh_refine_along_xi3 ceq ev mesh basis fac
       = assemble basis (elem_loop (list_all2 ceq) (ev mesh) [] []
           (xi_partitions_xi3 grid (elem_partitions fac)) (elements mesh))"
  by (simp add: mesh_refine_along_xi3_def assms assemble_def)

lemma full_unfold_by:
  assumes "get_num_elem_nodes basis = Inr nn" "generate_xi_grid nn 3 = Inr grid"
  shows "full_refinement ceq ev mesh basis [f1, f2, f3]
       = assemble basis (elem_loop (list_all2 ceq) (ev mesh) [] []
           (xi_partitions_full grid (elem_partitions f1) (elem_partitions f2) (elem_partitions f3))
           (elements mesh))"
  by (simp add: full_refinement_def assms assemble_def py_index_def)

lemma assemble_floats:
  assumes "assemble basis (elem_loop (list_all2 f64_eq) (ev mesh) [] [] parts es) = Inr (rm, xn, xe)"
  shows "nan_free (evaluated_rows (returned_points ev mesh) es parts) \<and>
         dedup_result_by (list_all2 f64_eq) (evaluated_rows (returned_points ev mesh) es parts) xn xe"
  using assemble_loops_by[where keq = "list_all2 f64_eq" and ev = "ev mesh",
      OF key_symp key_transp assms]
  by (simp add: returned_points_eq nan_free_refl)

lemma assemble_nan:
  assumes "evaluates (ev mesh) es parts pts \<and> \<not> nan_free (evaluated_rows pts es parts)"
  shows "assemble basis (elem_loop (list_all2 f64_eq) (ev mesh) [] [] parts es) = Inl KeyError"
proof -
  from assms have a: "evaluates (ev mesh) es parts pts"
    and b: "\<exists>p \<in> set (concat (evaluated_rows pts es parts)). \<not> list_all2 f64_eq p p"
    by (simp_all add: nan_free_refl)
  show ?thesis
    by (rule assemble_irrefl[where keq = "list_all2 f64_eq" and ev = "ev mesh",
          OF key_symp key_transp a b])
qed

lemma full_run_by:
  assumes "get_num_elem_nodes basis = Inr nn" "generate_xi_grid nn 3 = Inr grid"
    and "parts = xi_partitions_full grid (elem_partitions f1) (elem_partitions f2) (elem_partitions f3)"
    and "evaluates (ev mesh) (elements mesh) parts pts"
    and "\<forall>e \<in> set (elements mesh). \<forall>p \<in> set parts. length (pts e p) = length p"
    and "\<forall>p \<in> set (concat (evaluated_rows pts (elements mesh) parts)). list_all2 ceq p p"
    and "xn = first_seen_by (list_all2 ceq) [] (concat (evaluated_rows pts (elements mesh) parts))"
    and "xe = map (map (index_by (list_all2 ceq) xn)) (evaluated_rows pts (elements mesh) parts)"
  shows "full_refinement ceq ev mesh basis [f1, f2, f3] = Inr (refined_mesh basis xn xe, xn, xe)"
proof -
  from canonical_grid_length[OF assms(1,2)] obtain counts where
    c: "basis_counts basis = Inr counts" "length grid = prod_list counts" by blast
  have "\<forall>e \<in> set (elements mesh). \<forall>p \<in> set parts. length (pts e p) = prod_list counts"
    using assms(5) full_parts_like[OF canonical_grid_rows[OF assms(1,2)]] c(2)
    unfolding assms(3) by (simp add: grid_like_def)
  from assemble_run_by[where keq = "list_all2 ceq" and ev = "ev mesh", OF assms(4) c(1) this assms(6,7,8)]
  show ?thesis
    by (simp add: full_unfold_by[OF assms(1,2)] assms(3))
qed

lemma xi2_run_by:
  assumes "get_num_elem_nodes basis = Inr nn" "generate_xi_grid nn 3 = Inr grid"
    and "parts = xi_partitions_xi2 grid (elem_partitions fac)"
    and "evaluates (ev mesh) (elements mesh) parts pts"
    and "\<forall>e \<in> set (elements mesh). \<forall>p \<in> set parts. length (pts e p) = length p"
    and "\<forall>p \<in> set (concat (evaluated_rows pts (elements mesh) parts)). list_all2 ceq p p"
    and "xn = first_seen_by (list_all2 ceq) [] (concat (evaluated_rows pts (elements mesh) parts))"
    and "xe = map (map (index_by (list_all2 ceq) xn)) (evaluated_rows pts (elements mesh) parts)"
  shows "mesh_refine_along_xi2 ceq ev mesh basis fac = Inr (refined_mesh basis xn xe, xn, xe)"
proof -
  from canonical_grid_length[OF assms(1,2)] obtain counts where
    c: "basis_counts basis = Inr counts" "length grid = prod_list counts" by blast
  have "\<forall>e \<in> set (elements mesh). \<forall>p \<in> set parts. length (pts e p) = prod_list counts"
    using assms(5) xi2_parts_like[OF canonical_grid_rows[OF assms(1,2)]] c(2)
    unfolding assms(3) by (simp add: grid_like_def)
  from assemble_run_by[where keq = "list_all2 ceq" and ev = "ev mesh", OF assms(4) c(1) this assms(6,7,8)]
  show ?thesis
    by (simp add: xi2_unfold_by[OF assms(1,2)] assms(3))
qed

lemma tc_elements:
  "elements two_cells =
     [\<lparr>eid = 1, ebasis = [''L1'', ''L1'', ''L1''], enodes = [1, 2, 3, 4, 5, 6, 7, 8]\<rparr>,
      \<lparr>eid = 2, ebasis = [''L1'', ''L1'', ''L1''], enodes = [9, 10, 11, 12, 13, 14, 15, 16]\<rparr>]"
  by (simp add: two_cells_def refined_mesh_def refined_element_def)

lemma tc_left:
  "nodal_points two_cells
     \<lparr>eid = 1, ebasis = [''L1'', ''L1'', ''L1''], enodes = [1, 2, 3, 4, 5, 6, 7, 8]\<rparr> corner_points
     = Inr left_cell_points"
  by code_simp

lemma tc_right:
  "nodal_points two_cells
     \<lparr>eid = 2, ebasis = [''L1'', ''L1'', ''L1''], enodes = [9, 10, 11, 12, 13, 14, 15, 16]\<rparr>
     corner_points
     = Inr right_cell_points"
  by code_simp

lemma tc_evaluates:
  "evaluates (nodal_points two_cells) (elements two_cells) [corner_points]
     (returned_points nodal_points two_cells)"
  by (simp add: evaluates_def tc_elements returned_points_def tc_left tc_right)

lemma tc_rows:
  "evaluated_rows (returned_points nodal_points two_cells) (elements two_cells) [corner_points]
     = [left_cell_points, right_cell_points]"
  by (simp add: evaluated_rows_def tc_elements returned_points_def tc_left tc_right)

lemma tc_nan_free: "nan_free [left_cell_points, right_cell_points]"
  by code_simp

lemma tc_first_seen:
  "first_seen_by (list_all2 f64_eq) [] (concat [left_cell_points, right_cell_points])
     = merged_points"
  by code_simp

lemma tc_index:
  "map (map (index_by (list_all2 f64_eq) merged_points)) [left_cell_points, right_cell_points]
     = halved_connectivity"
  by code_simp

lemma tc_lengths:
  "length left_cell_points = length corner_points \<and>
   length right_cell_points = length corner_points"
  by (simp add: left_cell_points_def right_cell_points_def corner_points_def)

lemma tc_full_run:
  "full_refinement f64_eq nodal_points two_cells [''L1'', ''L1'', ''L1''] [1, 1, 1]
     = Inr (refined_mesh [''L1'', ''L1'', ''L1''] merged_points halved_connectivity,
            merged_points, halved_connectivity)"
proof (rule full_run_by[OF L1_counts L1_grid, where pts = "returned_points nodal_points two_cells"
      and parts = "[corner_points]"])
  show "[corner_points] = xi_partitions_full corner_points (elem_partitions 1)
          (elem_partitions 1) (elem_partitions 1)"
    by (simp only: parts_1 full_whole)
  show "evaluates (nodal_points two_cells) (elements two_cells) [corner_points]
          (returned_points nodal_points two_cells)"
    by (rule tc_evaluates)
  show "\<forall>e \<in> set (elements two_cells). \<forall>p \<in> set [corner_points].
          length (returned_points nodal_points two_cells e p) = length p"
    using tc_lengths by (simp add: tc_elements returned_points_def tc_left tc_right)
  show "\<forall>p \<in> set (concat (evaluated_rows (returned_points nodal_points two_cells)
          (elements two_cells) [corner_points])). list_all2 f64_eq p p"
    using tc_nan_free unfolding tc_rows by (simp only: nan_free_refl)
  show "merged_points = first_seen_by (list_all2 f64_eq) []
          (concat (evaluated_rows (returned_points nodal_points two_cells) (elements two_cells)
             [corner_points]))"
    unfolding tc_rows by (rule tc_first_seen[symmetric])
  show "halved_connectivity = map (map (index_by (list_all2 f64_eq) merged_points))
          (evaluated_rows (returned_points nodal_points two_cells) (elements two_cells)
             [corner_points])"
    unfolding tc_rows by (rule tc_index[symmetric])
qed

lemma tc_xi2_run:
  "mesh_refine_along_xi2 f64_eq nodal_points two_cells [''L1'', ''L1'', ''L1''] 1
     = Inr (refined_mesh [''L1'', ''L1'', ''L1''] merged_points halved_connectivity,
            merged_points, halved_connectivity)"
proof (rule xi2_run_by[OF L1_counts L1_grid, where pts = "returned_points nodal_points two_cells"
      and parts = "[corner_points]"])
  show "[corner_points] = xi_partitions_xi2 corner_points (elem_partitions 1)"
    by (simp only: parts_1 xi2_whole)
  show "evaluates (nodal_points two_cells) (elements two_cells) [corner_points]
          (returned_points nodal_points two_cells)"
    by (rule tc_evaluates)
  show "\<forall>e \<in> set (elements two_cells). \<forall>p \<in> set [corner_points].
          length (returned_points nodal_points two_cells e p) = length p"
    using tc_lengths by (simp add: tc_elements returned_points_def tc_left tc_right)
  show "\<forall>p \<in> set (concat (evaluated_rows (returned_points nodal_points two_cells)
          (elements two_cells) [corner_points])). list_all2 f64_eq p p"
    using tc_nan_free unfolding tc_rows by (simp only: nan_free_refl)
  show "merged_points = first_seen_by (list_all2 f64_eq) []
          (concat (evaluated_rows (returned_points nodal_points two_cells) (elements two_cells)
             [corner_points]))"
    unfolding tc_rows by (rule tc_first_seen[symmetric])
  show "halved_connectivity = map (map (index_by (list_all2 f64_eq) merged_points))
          (evaluated_rows (returned_points nodal_points two_cells) (elements two_cells)
             [corner_points])"
    unfolding tc_rows by (rule tc_index[symmetric])
qed

lemma nc_elements:
  "elements nan_cell =
     [\<lparr>eid = 1, ebasis = [''L1'', ''L1'', ''L1''], enodes = [1, 2, 3, 4, 5, 6, 7, 8]\<rparr>]"
  by (simp add: nan_cell_def refined_mesh_def refined_element_def)

lemma nc_eval:
  "nodal_points nan_cell
     \<lparr>eid = 1, ebasis = [''L1'', ''L1'', ''L1''], enodes = [1, 2, 3, 4, 5, 6, 7, 8]\<rparr> corner_points
     = Inr ([0x7FF8000000000000, 0, 0] # tl right_cell_points)"
  by code_simp

lemma nc_evaluates:
  "evaluates (nodal_points nan_cell) (elements nan_cell) [corner_points]
     (returned_points nodal_points nan_cell)"
  by (simp add: evaluates_def nc_elements returned_points_def nc_eval)

lemma nc_rows:
  "evaluated_rows (returned_points nodal_points nan_cell) (elements nan_cell) [corner_points]
     = [[0x7FF8000000000000, 0, 0] # tl right_cell_points]"
  by (simp add: evaluated_rows_def nc_elements returned_points_def nc_eval)

lemma nc_nan: "\<not> nan_free [[0x7FF8000000000000, 0, 0] # tl right_cell_points]"
  by (simp add: nan_free_def f64_is_nan_def)

lemma assemble_floats_run:
  assumes "get_num_elem_nodes basis = Inr nn" "generate_xi_grid nn 3 = Inr grid"
    and "\<forall>p \<in> set parts. grid_like grid p"
    and "evaluates (ev mesh) es parts pts \<and>
         (\<forall>e \<in> set es. \<forall>p \<in> set parts. length (pts e p) = length p) \<and>
         nan_free (evaluated_rows pts es parts)"
  shows "\<exists>rm xn xe. assemble basis (elem_loop (list_all2 f64_eq) (ev mesh) [] [] parts es)
           = Inr (rm, xn, xe)"
proof -
  from canonical_grid_length[OF assms(1,2)] obtain counts where
    c: "basis_counts basis = Inr counts" "length grid = prod_list counts" by blast
  have e: "evaluates (ev mesh) es parts pts" using assms(4) by simp
  have l: "\<forall>e \<in> set es. \<forall>p \<in> set parts. length (pts e p) = prod_list counts"
    using assms(3,4) c(2) by (simp add: grid_like_def)
  have r: "\<forall>p \<in> set (concat (evaluated_rows pts es parts)). list_all2 f64_eq p p"
    using assms(4) unfolding nan_free_refl by blast
  from assemble_run_by[where keq = "list_all2 f64_eq" and ev = "ev mesh", OF e c(1) l r refl refl]
  show ?thesis by blast
qed

text \<open>
  Claim C1 says that two evaluated points collapse to one node only if their coordinates have
  the same bits.  The two cells meet in the plane \<open>x = 0\<close>; the corner \<open>(-0.0, 0.0, 0.0)\<close> of
  the left cell and the corner \<open>(0.0, 0.0, 0.0)\<close> of the right cell differ in the sign bit of
  the first coordinate, and both get the node 1: the refined mesh has 12 nodes, not 16.
\<close>

theorem signed_zeros_share_a_node:
  "full_refinement f64_eq nodal_points two_cells [''L1'', ''L1'', ''L1''] [1, 1, 1]
     = Inr (refined_mesh [''L1'', ''L1'', ''L1''] merged_points halved_connectivity,
            merged_points, halved_connectivity) \<and>
   evaluated_rows (returned_points nodal_points two_cells) (elements two_cells)
       (xi_partitions_full corner_points (elem_partitions 1) (elem_partitions 1)
          (elem_partitions 1))
     = [left_cell_points, right_cell_points] \<and>
   left_cell_points ! 1 = [0x8000000000000000, 0, 0] \<and>
   right_cell_points ! 0 = [0, 0, 0] \<and>
   left_cell_points ! 1 \<noteq> right_cell_points ! 0 \<and>
   halved_connectivity ! 0 ! 1 = 1 \<and>
   halved_connectivity ! 1 ! 0 = 1 \<and>
   length merged_points = 12"
proof -
  have a: "left_cell_points ! 1 = [0x8000000000000000, 0, 0]"
    by (simp add: left_cell_points_def)
  have b: "right_cell_points ! 0 = [0, 0, 0]"
    by (simp add: right_cell_points_def)
  have c: "left_cell_points ! 1 \<noteq> right_cell_points ! 0"
    unfolding a b by simp
  have d: "halved_connectivity ! 0 ! 1 = 1 \<and> halved_connectivity ! 1 ! 0 = 1"
    by (simp add: halved_connectivity_def)
  have e: "length merged_points = 12"
    by (simp add: merged_points_def left_cell_points_def)
  have f: "evaluated_rows (returned_points nodal_points two_cells) (elements two_cells)
       (xi_partitions_full corner_points (elem_partitions 1) (elem_partitions 1)
          (elem_partitions 1))
     = [left_cell_points, right_cell_points]"
    by (simp only: parts_1 full_whole tc_rows)
  show ?thesis using tc_full_run a b c d e f by simp
qed

text \<open>
  Claim C1, amended.  The keys of the dictionary are tuples of floats, and two keys are the same
  key when their coordinates compare equal with \<open>==\<close>.  In every refinement call that
  returns, no evaluated point has a NaN coordinate; the node array lists the evaluated points
  that compared equal to no point met before, in the order in which the loops met them
  (elements outermost, then partitions, then the rows of one evaluation), so that the point
  first seen gets index 0; no two rows of the node array compare equal; every entry of the
  connectivity array is the position of the row that compares equal to the corresponding
  evaluated point; and two evaluated points share an index exactly when their coordinates
  compare equal one by one, that is, when each pair of coordinates has the same bits or
  consists of two zeros of either sign.  When all evaluations succeed, each with one point
  per parametric row, the call returns if no evaluated point has a NaN coordinate, and fails
  with KeyError otherwise.  For points without a zero coordinate, comparing equal is equality
  of the bits: points that differ by rounding are not merged.
\<close>

theorem refinement_merges_equal_floats:
  assumes "get_num_elem_nodes basis = Inr nn" and "generate_xi_grid nn 3 = Inr xi_grid"
  shows
    "(mesh_refine_along_xi1 f64_eq ev mesh basis fac = Inr (rm, xn, xe) \<longrightarrow>
        nan_free (evaluated_rows (returned_points ev mesh) (elements mesh)
          (xi_partitions_xi1 xi_grid (elem_partitions fac))) \<and>
        dedup_result_by (list_all2 f64_eq) (evaluated_rows (returned_points ev mesh) (elements mesh)
          (xi_partitions_xi1 xi_grid (elem_partitions fac))) xn xe) \<and>
     (mesh_refine_along_xi2 f64_eq ev mesh basis fac = Inr (rm, xn, xe) \<longrightarrow>
        nan_free (evaluated_rows (returned_points ev mesh) (elements mesh)
          (xi_partitions_xi2 xi_grid (elem_partitions fac))) \<and>
        dedup_result_by (list_all2 f64_eq) (evaluated_rows (returned_points ev mesh) (elements mesh)
          (xi_partitions_xi2 xi_grid (elem_partitions fac))) xn xe) \<and>
     (mesh_refine_along_xi3 f64_eq ev mesh basis fac = Inr (rm, xn, xe) \<longrightarrow>
        nan_free (evaluated_rows (returned_points ev mesh) (elements mesh)
          (xi_partitions_xi3 xi_grid (elem_partitions fac))) \<and>
        dedup_result_by (list_all2 f64_eq) (evaluated_rows (returned_points ev mesh) (elements mesh)
          (xi_partitions_xi3 xi_grid (elem_partitions fac))) xn xe) \<and>
     (full_refinement f64_eq ev mesh basis [f1, f2, f3] = Inr (rm, xn, xe) \<longrightarrow>
        nan_free (evaluated_rows (returned_points ev mesh) (elements mesh)
          (xi_partitions_full xi_grid (elem_partitions f1) (elem_partitions f2)
             (elem_partitions f3))) \<and>
        dedup_result_by (list_all2 f64_eq) (evaluated_rows (returned_points ev mesh) (elements mesh)
          (xi_partitions_full xi_grid (elem_partitions f1) (elem_partitions f2)
             (elem_partitions f3))) xn xe) \<and>
     (evaluates (ev mesh) (elements mesh) (xi_partitions_xi1 xi_grid (elem_partitions fac)) pts \<and>
      \<not> nan_free (evaluated_rows pts (elements mesh)
          (xi_partitions_xi1 xi_grid (elem_partitions fac))) \<longrightarrow>
        mesh_refine_along_xi1 f64_eq ev mesh basis fac = Inl KeyError) \<and>
     (evaluates (ev mesh) (elements mesh) (xi_partitions_xi2 xi_grid (elem_partitions fac)) pts \<and>
      \<not> nan_free (evaluated_rows pts (elements mesh)
          (xi_partitions_xi2 xi_grid (elem_partitions fac))) \<longrightarrow>
        mesh_refine_along_xi2 f64_eq ev mesh basis fac = Inl KeyError) \<and>
     (evaluates (ev mesh) (elements mesh) (xi_partitions_xi3 xi_grid (elem_partitions fac)) pts \<and>
      \<not> nan_free (evaluated_rows pts (elements mesh)
          (xi_partitions_xi3 xi_grid (elem_partitions fac))) \<longrightarrow>
        mesh_refine_along_xi3 f64_eq ev mesh basis fac = Inl KeyError) \<and>
     (evaluates (ev mesh) (elements mesh)
        (xi_partitions_full xi_grid (elem_partitions f1) (elem_partitions f2) (elem_partitions f3))
        pts \<and>
      \<not> nan_free (evaluated_rows pts (elements mesh)
          (xi_partitions_full xi_grid (elem_partitions f1) (elem_partitions f2)
             (elem_partitions f3))) \<longrightarrow>
        full_refinement f64_eq ev mesh basis [f1, f2, f3] = Inl KeyError) \<and>
     (evaluates (ev mesh) (elements mesh) (xi_partitions_xi1 xi_grid (elem_partitions fac)) pts \<and>
      (\<forall>e \<in> set (elements mesh). \<forall>p \<in> set (xi_partitions_xi1 xi_grid (elem_partitions fac)).
         length (pts e p) = length p) \<and>
      nan_free (evaluated_rows pts (elements mesh) (xi_partitions_xi1 xi_grid (elem_partitions fac))) \<longrightarrow>
        (\<exists>rm xn xe. mesh_refine_along_xi1 f64_eq ev mesh basis fac = Inr (rm, xn, xe))) \<and>
     (evaluates (ev mesh) (elements mesh) (xi_partitions_xi2 xi_grid (elem_partitions fac)) pts \<and>
      (\<forall>e \<in> set (elements mesh). \<forall>p \<in> set (xi_partitions_xi2 xi_grid (elem_partitions fac)).
         length (pts e p) = length p) \<and>
      nan_free (evaluated_rows pts (elements mesh) (xi_partitions_xi2 xi_grid (elem_partitions fac))) \<longrightarrow>
        (\<exists>rm xn xe. mesh_refine_along_xi2 f64_eq ev mesh basis fac = Inr (rm, xn, xe))) \<and>
     (evaluates (ev mesh) (elements mesh) (xi_partitions_xi3 xi_grid (elem_partitions fac)) pts \<and>
      (\<forall>e \<in> set (elements mesh). \<forall>p \<in> set (xi_partitions_xi3 xi_grid (elem_partitions fac)).
         length (pts e p) = length p) \<and>
      nan_free (evaluated_rows pts (elements mesh) (xi_partitions_xi3 xi_grid (elem_partitions fac))) \<longrightarrow>
        (\<exists>rm xn xe. mesh_refine_along_xi3 f64_eq ev mesh basis fac = Inr (rm, xn, xe))) \<and>
     (evaluates (ev mesh) (elements mesh) (xi_partitions_full xi_grid (elem_partitions f1) (elem_partitions f2)
          (elem_partitions f3)) pts \<and>
      (\<forall>e \<in> set (elements mesh). \<forall>p \<in> set (xi_partitions_full xi_grid (elem_partitions f1) (elem_partitions f2)
          (elem_partitions f3)).
         length (pts e p) = length p) \<and>
      nan_free (evaluated_rows pts (elements mesh) (xi_partitions_full xi_grid (elem_partitions f1) (elem_partitions f2)
          (elem_partitions f3))) \<longrightarrow>
        (\<exists>rm xn xe. full_refinement f64_eq ev mesh basis [f1, f2, f3] = Inr (rm, xn, xe))) \<and>
     ((\<forall>c \<in> set p. \<not> f64_is_nan c \<and> \<not> f64_is_zero c) \<longrightarrow> list_all2 f64_eq p q = (p = q))"
proof -
  note rows = canonical_grid_rows[OF assms]
  note run = assemble_floats_run[OF assms, where ev = ev and mesh = mesh and pts = pts
      and es = "elements mesh"]
  show ?thesis
    unfolding xi1_unfold_by[OF assms] xi2_unfold_by[OF assms] xi3_unfold_by[OF assms]
      full_unfold_by[OF assms]
    using assemble_floats[where ev = ev and mesh = mesh and basis = basis]
      assemble_nan[where ev = ev and mesh = mesh and basis = basis and pts = pts]
      key_bits[of p q]
      run[OF xi1_parts_like[OF rows]] run[OF xi2_parts_like[OF rows]]
      run[OF xi3_parts_like[OF rows]] run[OF full_parts_like[OF rows]]
    by blast
qed

theorem refinement_merges_equal_floats_witness:
  "get_num_elem_nodes [''L1'', ''L1'', ''L1''] = Inr [2, 2, 2] \<and>
   generate_xi_grid [2, 2, 2] 3 = Inr corner_points \<and>
   full_refinement f64_eq nodal_points two_cells [''L1'', ''L1'', ''L1''] [1, 1, 1]
     = Inr (refined_mesh [''L1'', ''L1'', ''L1''] merged_points halved_connectivity,
            merged_points, halved_connectivity) \<and>
   mesh_refine_along_xi2 f64_eq nodal_points two_cells [''L1'', ''L1'', ''L1''] 1
     = Inr (refined_mesh [''L1'', ''L1'', ''L1''] merged_points halved_connectivity,
            merged_points, halved_connectivity) \<and>
   nan_free [left_cell_points, right_cell_points] \<and>
   dedup_result_by (list_all2 f64_eq) [left_cell_points, right_cell_points]
     merged_points halved_connectivity \<and>
   evaluates (nodal_points nan_cell) (elements nan_cell) [corner_points]
     (returned_points nodal_points nan_cell) \<and>
   \<not> nan_free [[0x7FF8000000000000, 0, 0] # tl right_cell_points] \<and>
   full_refinement f64_eq nodal_points nan_cell [''L1'', ''L1'', ''L1''] [1, 1, 1]
     = Inl KeyError \<and>
   (\<exists>rm xn xe. mesh_refine_along_xi3 f64_eq nodal_points two_cells [''L1'', ''L1'', ''L1''] 1
      = Inr (rm, xn, xe)) \<and>
   list_all2 f64_eq [0x3FF0000000000000, 0x3FF0000000000000, 0x3FF0000000000000]
       [0x3FF0000000000000, 0x3FF0000000000000, 0x3FF0000000000001]
     = ([0x3FF0000000000000, 0x3FF0000000000000, 0x3FF0000000000000]
          = [0x3FF0000000000000, 0x3FF0000000000000, 0x3FF0000000000001 :: float64])"
proof -
  note t = refinement_merges_equal_floats[OF L1_counts L1_grid, where ev = nodal_points]
  have a: "nan_free [left_cell_points, right_cell_points] \<and>
     dedup_result_by (list_all2 f64_eq) [left_cell_points, right_cell_points]
       merged_points halved_connectivity"
    using t[where mesh = two_cells and ?f1.0 = 1 and ?f2.0 = 1 and ?f3.0 = 1,
        THEN conjunct2, THEN conjunct2, THEN conjunct2, THEN conjunct1] tc_full_run
    by (simp add: parts_1 full_whole tc_rows)
  have b: "nan_free [left_cell_points, right_cell_points] \<and>
     dedup_result_by (list_all2 f64_eq) [left_cell_points, right_cell_points]
       merged_points halved_connectivity"
    using t[where mesh = two_cells and fac = 1, THEN conjunct2, THEN conjunct1] tc_xi2_run
    by (simp add: parts_1 xi2_whole tc_rows)
  have c: "full_refinement f64_eq nodal_points nan_cell [''L1'', ''L1'', ''L1''] [1, 1, 1]
     = Inl KeyError"
    using t[where mesh = nan_cell and ?f1.0 = 1 and ?f2.0 = 1 and ?f3.0 = 1
        and pts = "returned_points nodal_points nan_cell",
        THEN conjunct2, THEN conjunct2, THEN conjunct2, THEN conjunct2,
        THEN conjunct2, THEN conjunct2, THEN conjunct2, THEN conjunct1]
      nc_evaluates nc_nan
    by (simp add: parts_1 full_whole nc_rows)
  have d: "list_all2 f64_eq [0x3FF0000000000000, 0x3FF0000000000000, 0x3FF0000000000000]
       [0x3FF0000000000000, 0x3FF0000000000000, 0x3FF0000000000001]
     = ([0x3FF0000000000000, 0x3FF0000000000000, 0x3FF0000000000000]
          = [0x3FF0000000000000, 0x3FF0000000000000, 0x3FF0000000000001 :: float64])"
    using t[where p = "[0x3FF0000000000000, 0x3FF0000000000000, 0x3FF0000000000000]"
        and q = "[0x3FF0000000000000, 0x3FF0000000000000, 0x3FF0000000000001]",
        THEN conjunct2, THEN conjunct2, THEN conjunct2, THEN conjunct2,
        THEN conjunct2, THEN conjunct2, THEN conjunct2, THEN conjunct2,
        THEN conjunct2, THEN conjunct2, THEN conjunct2, THEN conjunct2]
    by (simp add: f64_is_nan_def f64_is_zero_def)
  have h: "evaluates (nodal_points two_cells) (elements two_cells)
        (xi_partitions_xi3 corner_points (elem_partitions 1))
        (returned_points nodal_points two_cells) \<and>
      (\<forall>e \<in> set (elements two_cells).
         \<forall>p \<in> set (xi_partitions_xi3 corner_points (elem_partitions 1)).
           length (returned_points nodal_points two_cells e p) = length p) \<and>
      nan_free (evaluated_rows (returned_points nodal_points two_cells) (elements two_cells)
        (xi_partitions_xi3 corner_points (elem_partitions 1)))"
    unfolding parts_1 xi3_whole tc_rows
    using tc_evaluates tc_nan_free tc_lengths
    by (simp add: tc_elements returned_points_def tc_left tc_right)
  have e: "\<exists>rm xn xe.
      mesh_refine_along_xi3 f64_eq nodal_points two_cells [''L1'', ''L1'', ''L1''] 1
        = Inr (rm, xn, xe)"
    by (rule t[where mesh = two_cells and fac = 1
        and pts = "returned_points nodal_points two_cells",
        THEN conjunct2, THEN conjunct2, THEN conjunct2, THEN conjunct2,
        THEN conjunct2, THEN conjunct2, THEN conjunct2, THEN conjunct2,
        THEN conjunct2, THEN conjunct2, THEN conjunct1, THEN mp, OF h])
  show ?thesis
    using a c d e L1_counts L1_grid tc_full_run tc_xi2_run nc_evaluates nc_nan by simp
qed

subsection \<open>Partitions and sub-element counts\<close>

lemma assemble_length:
  fixes ev :: "element \<Rightarrow> rat list list \<Rightarrow> error + 'c list list"
  assumes "assemble basis (elem_loop (=) ev [] [] parts es) = Inr (rm, xn, xe)"
  shows "length xe = length es * length parts"
  using assemble_loops[OF assms] by (simp add: dedup_result_def length_evaluated_rows)

lemma length_xi1: "length (xi_partitions_xi1 grid parts) = length parts"
  by (simp add: xi_partitions_xi1_def)

lemma length_xi2: "length (xi_partitions_xi2 grid parts) = length parts"
  by (simp add: xi_partitions_xi2_def)

lemma length_xi3: "length (xi_partitions_xi3 grid parts) = length parts"
  by (simp add: xi_partitions_xi3_def)







subsection \<open>The basis of the source elements\<close>









subsection \<open>The contents of the refined mesh\<close>

lemma built_from_refined_mesh: "built_from basis xn xe (refined_mesh basis xn xe)"
  unfolding built_from_def
proof (intro conjI allI impI)
  show "length (nodes (refined_mesh basis xn xe)) = length xn"
    by (simp add: refined_mesh_def refined_nodes_length)
  show "length (P (refined_mesh basis xn xe)) = length (concat xn)"
    by (simp add: refined_mesh_def)
  show "length (elements (refined_mesh basis xn xe)) = length xe"
    by (simp add: refined_mesh_def)
  show "generated (refined_mesh basis xn xe)"
    by (simp add: refined_mesh_def)
next
  fix i assume i: "i < length xn"
  show "nid (nodes (refined_mesh basis xn xe) ! i) = int i + 1"
    by (simp add: refined_mesh_def refined_nodes_nth[OF i])
  show "ngroup (nodes (refined_mesh basis xn xe) ! i) = ''_default''"
    by (simp add: refined_mesh_def refined_nodes_nth[OF i])
  show "node_values (refined_mesh basis xn xe) (nodes (refined_mesh basis xn xe) ! i)
      = ([length (xn ! i)], xn ! i)"
    using refined_node_values[OF i] by (simp add: refined_mesh_def)
next
  fix k assume k: "k < length xe"
  show "elements (refined_mesh basis xn xe) ! k
      = \<lparr>eid = int k + 1, ebasis = basis, enodes = map (\<lambda>j. int j + 1) (xe ! k)\<rparr>"
    using k by (simp add: refined_mesh_def refined_element_def nth_enumerate_eq)
qed

lemma assemble_built:
  fixes ev :: "element \<Rightarrow> rat list list \<Rightarrow> error + 'c list list"
  assumes "assemble basis (elem_loop (=) ev [] [] parts es) = Inr (rm, xn, xe)"
  shows "built_from basis xn xe rm \<and> distinct xn \<and> length (elements rm) = length es * length parts"
proof -
  from assemble_loops[OF assms] have d: "dedup_result (evaluated_rows (\<lambda>e p. projr (ev e p)) es parts) xn xe"
    and c: "create_morphic_mesh basis xn xe = Inr rm" by simp_all
  from create_morphic_mesh_form[OF c] have rm: "rm = refined_mesh basis xn xe"
    by (simp add: refined_mesh_def)
  have b: "built_from basis xn xe rm" unfolding rm by (rule built_from_refined_mesh)
  moreover have "distinct xn" using d unfolding dedup_result_def by blast
  moreover have "length (elements rm) = length es * length parts"
    using b assemble_length[OF assms] by (simp add: built_from_def)
  ultimately show ?thesis by blast
qed

lemma xi1_Inr:
  "mesh_refine_along_xi1 (=) ev mesh basis fac = Inr r \<Longrightarrow>
   \<exists>nn grid. get_num_elem_nodes basis = Inr nn \<and> generate_xi_grid nn 3 = Inr grid"
  by (auto simp: mesh_refine_along_xi1_def bind_Inr_iff)

lemma xi2_Inr:
  "mesh_refine_along_xi2 (=) ev mesh basis fac = Inr r \<Longrightarrow>
   \<exists>nn grid. get_num_elem_nodes basis = Inr nn \<and> generate_xi_grid nn 3 = Inr grid"
  by (auto simp: mesh_refine_along_xi2_def bind_Inr_iff)

lemma xi3_Inr:
  "mesh_refine_along_xi3 (=) ev mesh basis fac = Inr r \<Longrightarrow>
   \<exists>nn grid. get_num_elem_nodes basis = Inr nn \<and> generate_xi_grid nn 3 = Inr grid"
  by (auto simp: mesh_refine_along_xi3_def bind_Inr_iff)

lemma full_Inr:
  "full_refinement (=) ev mesh basis facs = Inr r \<Longrightarrow>
   \<exists>nn grid. get_num_elem_nodes basis = Inr nn \<and> generate_xi_grid nn 3 = Inr grid"
  by (auto simp: full_refinement_def bind_Inr_iff)

lemma xi1_built:
  assumes "mesh_refine_along_xi1 (=) ev mesh basis fac = Inr (rm, xn, xe)"
  shows "built_from basis xn xe rm \<and> distinct xn \<and>
         length (elements rm) = length (elements mesh) * nat fac"
proof -
  from xi1_Inr[OF assms] obtain nn grid where
    g: "get_num_elem_nodes basis = Inr nn" "generate_xi_grid nn 3 = Inr grid" by blast
  from assms assemble_built[of basis "ev mesh" "xi_partitions_xi1 grid (elem_partitions fac)"
      "elements mesh" rm xn xe]
  show ?thesis by (simp add: xi1_unfold[OF g] length_xi1 length_elem_partitions)
qed

lemma xi2_built:
  assumes "mesh_refine_along_xi2 (=) ev mesh basis fac = Inr (rm, xn, xe)"
  shows "built_from basis xn xe rm \<and> distinct xn \<and>
         length (elements rm) = length (elements mesh) * nat fac"
proof -
  from xi2_Inr[OF assms] obtain nn grid where
    g: "get_num_elem_nodes basis = Inr nn" "generate_xi_grid nn 3 = Inr grid" by blast
  from assms assemble_built[of basis "ev mesh" "xi_partitions_xi2 grid (elem_partitions fac)"
      "elements mesh" rm xn xe]
  show ?thesis by (simp add: xi2_unfold[OF g] length_xi2 length_elem_partitions)
qed

lemma xi3_built:
  assumes "mesh_refine_along_xi3 (=) ev mesh basis fac = Inr (rm, xn, xe)"
  shows "built_from basis xn xe rm \<and> distinct xn \<and>
         length (elements rm) = length (elements mesh) * nat fac"
proof -
  from xi3_Inr[OF assms] obtain nn grid where
    g: "get_num_elem_nodes basis = Inr nn" "generate_xi_grid nn 3 = Inr grid" by blast
  from assms assemble_built[of basis "ev mesh" "xi_partitions_xi3 grid (elem_partitions fac)"
      "elements mesh" rm xn xe]
  show ?thesis by (simp add: xi3_unfold[OF g] length_xi3 length_elem_partitions)
qed

lemma full_built:
  assumes "full_refinement (=) ev mesh basis [f1, f2, f3] = Inr (rm, xn, xe)"
  shows "built_from basis xn xe rm \<and> distinct xn \<and>
         length (elements rm) = length (elements mesh) * (nat f1 * nat f2 * nat f3)"
proof -
  from full_Inr[OF assms] obtain nn grid where
    g: "get_num_elem_nodes basis = Inr nn" "generate_xi_grid nn 3 = Inr grid" by blast
  note rows = canonical_grid_rows[OF g]
  from assms assemble_built[of basis "ev mesh"
      "xi_partitions_full grid (elem_partitions f1) (elem_partitions f2) (elem_partitions f3)"
      "elements mesh" rm xn xe]
  show ?thesis
    by (simp add: full_unfold[OF g] length_xi_partitions_full[OF rows] length_elem_partitions)
qed

text \<open>
  Claim C4 says that every node of the refined mesh has the index assigned to its point as
  its id.  \<open>create_morphic_mesh\<close> adds the point with index \<open>i\<close> under the id \<open>i + 1\<close>, and
  gives every element the id \<open>k + 1\<close> and its resolved node indices shifted by one.  In the
  refinement of the unit cube along xi1 the point with index 0 is held by node 1, and the
  second connectivity row \<open>[1, 8, 3, ...]\<close> becomes the node list \<open>[2, 9, 4, ...]\<close>.
\<close>

theorem node_ids_are_one_based:
  "mesh_refine_along_xi1 (=) evaluate unit_cube [''L1'', ''L1'', ''L1''] 2
     = Inr (refined_mesh [''L1'', ''L1'', ''L1''] halved_points halved_connectivity,
            halved_points, halved_connectivity) \<and>
   halved_points ! 0 = [0, 0, 0] \<and>
   nid (nodes (refined_mesh [''L1'', ''L1'', ''L1''] halved_points halved_connectivity) ! 0) = 1 \<and>
   node_values (refined_mesh [''L1'', ''L1'', ''L1''] halved_points halved_connectivity)
     (nodes (refined_mesh [''L1'', ''L1'', ''L1''] halved_points halved_connectivity) ! 0)
     = ([3], [0, 0, 0]) \<and>
   map nid (nodes (refined_mesh [''L1'', ''L1'', ''L1''] halved_points halved_connectivity))
     = [1, 2, 3, 4, 5, 6, 7, 8, 9, 10, 11, 12] \<and>
   halved_connectivity ! 1 = [1, 8, 3, 9, 5, 10, 7, 11] \<and>
   enodes (elements (refined_mesh [''L1'', ''L1'', ''L1''] halved_points halved_connectivity) ! 1)
     = [2, 9, 4, 10, 6, 11, 8, 12]"
proof -
  have "halved_points ! 0 = [0, 0, 0]" by code_simp
  moreover have "nid (nodes (refined_mesh [''L1'', ''L1'', ''L1''] halved_points
      halved_connectivity) ! 0) = 1" by code_simp
  moreover have "node_values (refined_mesh [''L1'', ''L1'', ''L1''] halved_points halved_connectivity)
     (nodes (refined_mesh [''L1'', ''L1'', ''L1''] halved_points halved_connectivity) ! 0)
     = ([3], [0, 0, 0])" by code_simp
  moreover have "map nid (nodes (refined_mesh [''L1'', ''L1'', ''L1''] halved_points
      halved_connectivity)) = [1, 2, 3, 4, 5, 6, 7, 8, 9, 10, 11, 12]" by code_simp
  moreover have "halved_connectivity ! 1 = [1, 8, 3, 9, 5, 10, 7, 11]" by code_simp
  moreover have "enodes (elements (refined_mesh [''L1'', ''L1'', ''L1''] halved_points
      halved_connectivity) ! 1) = [2, 9, 4, 10, 6, 11, 8, 12]" by code_simp
  ultimately show ?thesis using uc_xi1_run by simp
qed

text \<open>
  Claim C4, amended.  A refinement call that returns \<open>(rm, xn, xe)\<close> returns a generated mesh
  \<open>rm\<close> with exactly one node per row of the array \<open>xn\<close> of distinct points, in that order,
  node \<open>i\<close> under the id \<open>i + 1\<close> with the values \<open>xn ! i\<close>, and exactly one element per
  (source element, partition) pair, element \<open>k\<close> under the id \<open>k + 1\<close> with the target basis
  and the node ids of row \<open>k\<close> of \<open>xe\<close>, each index shifted by one.
\<close>

theorem refined_mesh_contents:
  "(mesh_refine_along_xi1 (=) ev mesh basis fac = Inr (rm, xn, xe) \<longrightarrow>
      built_from basis xn xe rm \<and> distinct xn \<and>
      length (elements rm) = length (elements mesh) * nat fac) \<and>
   (mesh_refine_along_xi2 (=) ev mesh basis fac = Inr (rm, xn, xe) \<longrightarrow>
      built_from basis xn xe rm \<and> distinct xn \<and>
      length (elements rm) = length (elements mesh) * nat fac) \<and>
   (mesh_refine_along_xi3 (=) ev mesh basis fac = Inr (rm, xn, xe) \<longrightarrow>
      built_from basis xn xe rm \<and> distinct xn \<and>
      length (elements rm) = length (elements mesh) * nat fac) \<and>
   (full_refinement (=) ev mesh basis [f1, f2, f3] = Inr (rm, xn, xe) \<longrightarrow>
      built_from basis xn xe rm \<and> distinct xn \<and>
      length (elements rm) = length (elements mesh) * (nat f1 * nat f2 * nat f3))"
proof -
  have a: "mesh_refine_along_xi1 (=) ev mesh basis fac = Inr (rm, xn, xe) \<longrightarrow>
      built_from basis xn xe rm \<and> distinct xn \<and>
      length (elements rm) = length (elements mesh) * nat fac"
    by (rule impI) (erule xi1_built)
  have b: "mesh_refine_along_xi2 (=) ev mesh basis fac = Inr (rm, xn, xe) \<longrightarrow>
      built_from basis xn xe rm \<and> distinct xn \<and>
      length (elements rm) = length (elements mesh) * nat fac"
    by (rule impI) (erule xi2_built)
  have c: "mesh_refine_along_xi3 (=) ev mesh basis fac = Inr (rm, xn, xe) \<longrightarrow>
      built_from basis xn xe rm \<and> distinct xn \<and>
      length (elements rm) = length (elements mesh) * nat fac"
    by (rule impI) (erule xi3_built)
  have d: "full_refinement (=) ev mesh basis [f1, f2, f3] = Inr (rm, xn, xe) \<longrightarrow>
      built_from basis xn xe rm \<and> distinct xn \<and>
      length (elements rm) = length (elements mesh) * (nat f1 * nat f2 * nat f3)"
    by (rule impI) (erule full_built)
  show ?thesis by (rule conjI[OF a conjI[OF b conjI[OF c d]]])
qed

theorem refined_mesh_contents_witness:
  "mesh_refine_along_xi1 (=) evaluate unit_cube [''L1'', ''L1'', ''L1''] 2
     = Inr (refined_mesh [''L1'', ''L1'', ''L1''] halved_points halved_connectivity,
            halved_points, halved_connectivity) \<and>
   full_refinement (=) evaluate unit_cube [''L1'', ''L1'', ''L1''] [2, 1, 1]
     = Inr (refined_mesh [''L1'', ''L1'', ''L1''] halved_points halved_connectivity,
            halved_points, halved_connectivity) \<and>
   built_from [''L1'', ''L1'', ''L1''] halved_points halved_connectivity
     (refined_mesh [''L1'', ''L1'', ''L1''] halved_points halved_connectivity) \<and>
   distinct halved_points \<and>
   length (elements (refined_mesh [''L1'', ''L1'', ''L1''] halved_points halved_connectivity))
     = length (elements unit_cube) * 2 \<and>
   mesh_refine_along_xi2 (=) evaluate unit_cube [''L1'', ''L1'', ''L1''] 1
     = Inr (refined_mesh [''L1'', ''L1'', ''L1''] corner_points [[0, 1, 2, 3, 4, 5, 6, 7]],
            corner_points, [[0, 1, 2, 3, 4, 5, 6, 7]]) \<and>
   mesh_refine_along_xi3 (=) evaluate unit_cube [''L1'', ''L1'', ''L1''] 1
     = Inr (refined_mesh [''L1'', ''L1'', ''L1''] corner_points [[0, 1, 2, 3, 4, 5, 6, 7]],
            corner_points, [[0, 1, 2, 3, 4, 5, 6, 7]]) \<and>
   built_from [''L1'', ''L1'', ''L1''] corner_points [[0, 1, 2, 3, 4, 5, 6, 7]]
     (refined_mesh [''L1'', ''L1'', ''L1''] corner_points [[0, 1, 2, 3, 4, 5, 6, 7]])"
proof -
  note t = refined_mesh_contents[where ev = evaluate and mesh = unit_cube
      and basis = "[''L1'', ''L1'', ''L1'']"]
  have a: "built_from [''L1'', ''L1'', ''L1''] halved_points halved_connectivity
     (refined_mesh [''L1'', ''L1'', ''L1''] halved_points halved_connectivity) \<and>
     distinct halved_points \<and>
     length (elements (refined_mesh [''L1'', ''L1'', ''L1''] halved_points halved_connectivity))
       = length (elements unit_cube) * 2"
    using t[where fac = 2, THEN conjunct1] uc_xi1_run by simp
  have b: "built_from [''L1'', ''L1'', ''L1''] halved_points halved_connectivity
     (refined_mesh [''L1'', ''L1'', ''L1''] halved_points halved_connectivity)"
    using t[where ?f1.0 = 2 and ?f2.0 = 1 and ?f3.0 = 1, THEN conjunct2, THEN conjunct2,
        THEN conjunct2] uc_full_run by simp
  have c: "built_from [''L1'', ''L1'', ''L1''] corner_points [[0, 1, 2, 3, 4, 5, 6, 7]]
     (refined_mesh [''L1'', ''L1'', ''L1''] corner_points [[0, 1, 2, 3, 4, 5, 6, 7]])"
    using t[where fac = 1, THEN conjunct2, THEN conjunct1] uc_xi2_run by simp
  have d: "built_from [''L1'', ''L1'', ''L1''] corner_points [[0, 1, 2, 3, 4, 5, 6, 7]]
     (refined_mesh [''L1'', ''L1'', ''L1''] corner_points [[0, 1, 2, 3, 4, 5, 6, 7]])"
    using t[where fac = 1, THEN conjunct2, THEN conjunct2, THEN conjunct1] uc_xi3_run by simp
  show ?thesis using a b c d uc_xi1_run uc_full_run uc_xi2_run uc_xi3_run by simp
qed

subsection \<open>Full refinement with unit factors\<close>



























subsection \<open>Assigning the values of a node\<close>

lemma test_mesh_built:
  "bind (add_stdnode Mesh 1 ([2, 3], [0, 1 / 10, 2 / 10, 3 / 10, 4 / 10, 5 / 10]) ''_default'')
     (\<lambda>m. add_stdnode m 2 ([2, 3], [11, 12, 13, 15, 16, 66]) ''_default'') = Inr test_mesh"
  by (simp add: add_stdnode_def Mesh_def wf_array_def size_of_def test_mesh_def test_node1_def
      test_node2_def)




lemma set_all_mesh_built:
  "add_stdnode Mesh 1 ([2, 3], [0, 1 / 10, 2 / 10, 3 / 10, 4 / 10, 5 / 10]) ''_default''
     = Inr set_all_mesh"
  by (simp add: add_stdnode_def Mesh_def wf_array_def size_of_def set_all_mesh_def test_node1_def)




subsection \<open>Writing a sub-slice of the values of a node\<close>

lemma fold_update_length:
  "length (fold (\<lambda>(c, v) s. s[off + c := v]) cvs st) = length st"
  by (induction cvs arbitrary: st) auto

lemma fold_update_frame:
  "i \<notin> (\<lambda>c. off + c) ` fst ` set cvs \<Longrightarrow>
   fold (\<lambda>(c, v) s. s[off + c := v]) cvs st ! i = st ! i"
  by (induction cvs arbitrary: st) auto

lemma fold_update_hit:
  "distinct (map fst cvs) \<Longrightarrow> (c, v) \<in> set cvs \<Longrightarrow> off + c < length st \<Longrightarrow>
   fold (\<lambda>(c, v) s. s[off + c := v]) cvs st ! (off + c) = v"
proof (induction cvs arbitrary: st)
  case Nil then show ?case by simp
next
  case (Cons cv cvs)
  obtain c0 v0 where cv: "cv = (c0, v0)" by (cases cv)
  show ?case
  proof (cases "(c, v) = (c0, v0)")
    case True
    have "c0 \<notin> fst ` set cvs" using Cons.prems(1) cv by simp
    moreover have "c = c0" using True by simp
    ultimately have "off + c \<notin> (\<lambda>c. off + c) ` fst ` set cvs" by (auto simp: image_iff)
    from fold_update_frame[OF this] show ?thesis using True cv Cons.prems(3) by simp
  next
    case False
    then have "(c, v) \<in> set cvs" using Cons.prems(2) cv by auto
    moreover have "distinct (map fst cvs)" using Cons.prems(1) by simp
    moreover have "off + c < length (st[off + c0 := v0])" using Cons.prems(3) by simp
    ultimately show ?thesis using Cons.IH cv by simp
  qed
qed

lemma write_cells_length: "length (write_cells st off cells vs) = length st"
  by (simp add: write_cells_def fold_update_length)

lemma write_cells_frame:
  "i \<notin> (\<lambda>c. off + c) ` set cells \<Longrightarrow> write_cells st off cells vs ! i = st ! i"
  unfolding write_cells_def
  by (rule fold_update_frame) (auto dest: set_zip_leftD)

lemma write_cells_hit:
  assumes "distinct cells" "length vs = length cells" "k < length cells"
    "off + cells ! k < length st"
  shows "write_cells st off cells vs ! (off + cells ! k) = vs ! k"
proof -
  have m: "(cells ! k, vs ! k) \<in> set (zip cells vs)"
    using assms(2,3) by (metis in_set_zip fst_conv snd_conv)
  have d: "distinct (map fst (zip cells vs))" using assms(1,2) by simp
  from fold_update_hit[OF d m assms(4)] show ?thesis by (simp add: write_cells_def)
qed

lemma clamp_index_le: "clamp_index n i \<le> n"
  by (simp add: clamp_index_def Let_def)

lemma resolve_axis_sorted:
  assumes "resolve_axis d a = Inr rows"
  shows "sorted_wrt (<) rows \<and> (\<forall>r \<in> set rows. r < d)"
proof (cases a)
  case (Index i)
  then show ?thesis using assms by (auto simp: resolve_axis_def Let_def split: if_splits)
next
  case (Slice lo hi)
  have "(case hi of None \<Rightarrow> d | Some h \<Rightarrow> clamp_index d h) \<le> d"
    by (simp add: clamp_index_le split: option.splits)
  then show ?thesis using assms Slice by (auto simp: resolve_axis_def)
qed

lemma block_cells_sorted:
  fixes s d :: nat and sub rows :: "nat list"
  assumes "sorted_wrt (<) sub" "\<forall>c \<in> set sub. c < s"
  shows "sorted_wrt (<) rows \<Longrightarrow> \<forall>r \<in> set rows. r < d \<Longrightarrow>
         sorted_wrt (<) (concat (map (\<lambda>r. map (\<lambda>c. r * s + c) sub) rows)) \<and>
         (\<forall>x \<in> set (concat (map (\<lambda>r. map (\<lambda>c. r * s + c) sub) rows)). x < d * s)"
proof (induction rows)
  case Nil then show ?case by simp
next
  case (Cons r rows)
  have inner: "sorted_wrt (<) (map (\<lambda>c. r * s + c) sub)"
    unfolding sorted_wrt_map by (rule sorted_wrt_mono_rel[OF _ assms(1)]) simp
  have bound: "r * s + c < d * s" if "c \<in> set sub" "r < d" for r c
  proof -
    have "r * s + c < r * s + s" using assms(2) that(1) by simp
    also have "\<dots> = Suc r * s" by simp
    also have "\<dots> \<le> d * s" using that(2) by (intro mult_le_mono1) simp
    finally show ?thesis .
  qed
  have cross: "r * s + c < r' * s + c'" if "c \<in> set sub" "r' \<in> set rows" "c' \<in> set sub" for c r' c'
  proof -
    have "r < r'" using Cons.prems(1) that(2) by simp
    have "r * s + c < r * s + s" using assms(2) that(1) by simp
    also have "\<dots> = Suc r * s" by simp
    also have "\<dots> \<le> r' * s" using \<open>r < r'\<close> by (intro mult_le_mono1) simp
    finally show ?thesis by simp
  qed
  have ih: "sorted_wrt (<) (concat (map (\<lambda>r. map (\<lambda>c. r * s + c) sub) rows)) \<and>
         (\<forall>x \<in> set (concat (map (\<lambda>r. map (\<lambda>c. r * s + c) sub) rows)). x < d * s)"
    using Cons by simp
  show ?case
    using inner ih bound cross Cons.prems(2) by (auto simp: sorted_wrt_append)
qed

lemma slice_cells_sorted:
  "slice_cells shp idx = Inr cells \<Longrightarrow>
   sorted_wrt (<) cells \<and> (\<forall>c \<in> set cells. c < size_of shp)"
proof (induction shp idx arbitrary: cells rule: slice_cells.induct)
  case 1
  then show ?case by (auto simp: size_of_def)
next
  case (2 a as)
  then show ?case by simp
next
  case (3 d ds)
  from "3.prems" obtain sub where
    sub: "slice_cells ds [] = Inr sub"
    and cells: "cells = concat (map (\<lambda>r. map (\<lambda>c. r * size_of ds + c) sub) [0..<d])"
    by (auto simp: bind_Inr_iff)
  from "3.IH"[OF sub] have s: "sorted_wrt (<) sub" "\<forall>c \<in> set sub. c < size_of ds" by simp_all
  from block_cells_sorted[OF s, of "[0..<d]" d] show ?case
    by (simp add: cells size_of_def)
next
  case (4 d ds a as)
  from "4.prems" obtain rows sub where
    rows: "resolve_axis d a = Inr rows" and sub: "slice_cells ds as = Inr sub"
    and cells: "cells = concat (map (\<lambda>r. map (\<lambda>c. r * size_of ds + c) sub) rows)"
    by (auto simp: bind_Inr_iff)
  from "4.IH"[OF sub] have s: "sorted_wrt (<) sub" "\<forall>c \<in> set sub. c < size_of ds" by simp_all
  from resolve_axis_sorted[OF rows] block_cells_sorted[OF s, of rows d] show ?case
    by (simp add: cells size_of_def)
qed

lemma sorted_wrt_less_distinct: "sorted_wrt (<) (xs :: nat list) \<Longrightarrow> distinct xs"
  by (induction xs) auto

lemma test_first_write:
  "set_slice test_mesh test_node1 [Slice None None, Index 0] [99, 33]
     = Inr (test_mesh\<lparr>P := [99, 1 / 10, 2 / 10, 33, 4 / 10, 5 / 10, 11, 12, 13, 15, 16, 66]\<rparr>)"
  by code_simp

lemma test_first_cells: "slice_cells (nshape test_node1) [Slice None None, Index 0] = Inr [0, 3]"
  by code_simp

lemma test_set_slices_replay:
  "bind (set_slice test_mesh test_node1 [Slice None None, Index 0] [99, 33]) (\<lambda>m1.
   bind (set_slice m1 test_node2 [Index 1, Slice (Some 1) None] [11, 22]) (\<lambda>m2.
   bind (set_slice m2 test_node2 [Index 1, Index 0] [11]) (\<lambda>m3.
   set_slice m3 test_node1 [Index 0, Slice (Some (- 2)) None] [23, 45])))
     = Inr (test_mesh\<lparr>P := [99, 23, 45, 33, 4 / 10, 5 / 10, 11, 12, 13, 11, 11, 22]\<rparr>)"
  by code_simp

text \<open>
  Claim C7.  Writing a sub-slice of the values of a node changes the store exactly at the
  offsets of the selected cells, which lie inside the node's region; every other store
  element keeps its value and the store keeps its length; and the written values are read
  back from the store at these offsets, and through the node, at once.
\<close>

theorem set_slice_writes_only_its_cells:
  assumes "set_slice m n idx vs = Inr m'"
    and "noffset n + size_of (nshape n) \<le> length (P m)"
  shows "\<exists>cells data.
           slice_cells (nshape n) idx = Inr cells \<and>
           data = (if length vs = 1 then replicate (length cells) (hd vs) else vs) \<and>
           length data = length cells \<and>
           distinct cells \<and>
           (\<forall>c \<in> set cells. c < size_of (nshape n)) \<and>
           length (P m') = length (P m) \<and>
           nodes m' = nodes m \<and>
           (\<forall>i. i \<notin> (\<lambda>c. noffset n + c) ` set cells \<longrightarrow> P m' ! i = P m ! i) \<and>
           (\<forall>k < length cells.
              P m' ! (noffset n + cells ! k) = data ! k \<and>
              snd (node_values m' n) ! (cells ! k) = data ! k)"
proof -
  from assms(1) obtain cells where
    cells: "slice_cells (nshape n) idx = Inr cells"
    and rest: "(let data = (if length vs = 1 then replicate (length cells) (hd vs) else vs)
       in if length data \<noteq> length cells then Inl ShapeMismatch
          else Inr (m\<lparr>P := write_cells (P m) (noffset n) cells data\<rparr>)) = Inr m'"
    by (auto simp: set_slice_def bind_Inr_iff)
  define data where "data = (if length vs = 1 then replicate (length cells) (hd vs) else vs)"
  from rest have len: "length data = length cells"
    and m': "m' = m\<lparr>P := write_cells (P m) (noffset n) cells data\<rparr>"
    by (auto simp: data_def Let_def split: if_splits)
  from slice_cells_sorted[OF cells] have
    sorted: "sorted_wrt (<) cells" and bound: "\<forall>c \<in> set cells. c < size_of (nshape n)"
    by simp_all
  have dist: "distinct cells" by (rule sorted_wrt_less_distinct[OF sorted])
  have plen: "length (P m') = length (P m)" by (simp add: m' write_cells_length)
  have frame: "\<forall>i. i \<notin> (\<lambda>c. noffset n + c) ` set cells \<longrightarrow> P m' ! i = P m ! i"
    by (simp add: m' write_cells_frame)
  have hit: "\<forall>k < length cells.
              P m' ! (noffset n + cells ! k) = data ! k \<and>
              snd (node_values m' n) ! (cells ! k) = data ! k"
  proof (intro allI impI)
    fix k assume k: "k < length cells"
    then have c: "cells ! k < size_of (nshape n)" using bound by simp
    then have inside: "noffset n + cells ! k < length (P m)" using assms(2) by simp
    have h: "P m' ! (noffset n + cells ! k) = data ! k"
      using write_cells_hit[OF dist len k inside] by (simp add: m')
    have "snd (node_values m' n) ! (cells ! k) = P m' ! (noffset n + cells ! k)"
      using c assms(2) plen by (simp add: node_values_def)
    with h show "P m' ! (noffset n + cells ! k) = data ! k \<and>
              snd (node_values m' n) ! (cells ! k) = data ! k" by simp
  qed
  show ?thesis
    using cells len dist bound plen frame hit data_def m'
    by (intro exI[of _ cells] exI[of _ data]) simp
qed

theorem set_slice_writes_only_its_cells_witness:
  "set_slice test_mesh test_node1 [Slice None None, Index 0] [99, 33]
     = Inr (test_mesh\<lparr>P := [99, 1 / 10, 2 / 10, 33, 4 / 10, 5 / 10, 11, 12, 13, 15, 16, 66]\<rparr>) \<and>
   noffset test_node1 + size_of (nshape test_node1) \<le> length (P test_mesh) \<and>
   slice_cells (nshape test_node1) [Slice None None, Index 0] = Inr [0, 3] \<and>
   (\<exists>m'. set_slice test_mesh test_node1 [Slice None None, Index 0] [99, 33] = Inr m' \<and>
      length (P m') = 12 \<and>
      P m' ! 0 = 99 \<and> P m' ! 3 = 33 \<and>
      P m' ! 1 = P test_mesh ! 1 \<and> P m' ! 2 = P test_mesh ! 2 \<and>
      P m' ! 4 = P test_mesh ! 4 \<and> P m' ! 6 = P test_mesh ! 6 \<and>
      P m' ! 11 = P test_mesh ! 11 \<and>
      snd (node_values m' test_node1) ! 0 = 99 \<and> snd (node_values m' test_node1) ! 3 = 33)"
proof -
  let ?m = "test_mesh\<lparr>P := [99, 1 / 10, 2 / 10, 33, 4 / 10, 5 / 10, 11, 12, 13, 15, 16, 66]\<rparr>"
  have fit: "noffset test_node1 + size_of (nshape test_node1) \<le> length (P test_mesh)"
    by (simp add: test_node1_def test_mesh_def size_of_def)
  from set_slice_writes_only_its_cells[OF test_first_write fit] obtain cells data where
    c: "slice_cells (nshape test_node1) [Slice None None, Index 0] = Inr cells"
    and d: "data = (if length [99, 33 :: rat] = 1 then replicate (length cells) (hd [99, 33]) else [99, 33])"
    and l: "length (P ?m) = length (P test_mesh)"
    and f: "\<forall>i. i \<notin> (\<lambda>c. noffset test_node1 + c) ` set cells \<longrightarrow> P ?m ! i = P test_mesh ! i"
    and h: "\<forall>k < length cells.
              P ?m ! (noffset test_node1 + cells ! k) = data ! k \<and>
              snd (node_values ?m test_node1) ! (cells ! k) = data ! k"
    by blast
  have cells: "cells = [0, 3]" using c test_first_cells by simp
  have data: "data = [99, 33]" using d by simp
  have off: "noffset test_node1 = 0" by (simp add: test_node1_def)
  have "length (P ?m) = 12" using l by (simp add: test_mesh_def)
  moreover have "P ?m ! 0 = 99 \<and> snd (node_values ?m test_node1) ! 0 = 99"
    using h[rule_format, of 0] by (simp add: cells data off)
  moreover have "P ?m ! 3 = 33 \<and> snd (node_values ?m test_node1) ! 3 = 33"
    using h[rule_format, of 1] by (simp add: cells data off)
  moreover have "P ?m ! 1 = P test_mesh ! 1" using f[rule_format, of 1] by (simp add: cells off)
  moreover have "P ?m ! 2 = P test_mesh ! 2" using f[rule_format, of 2] by (simp add: cells off)
  moreover have "P ?m ! 4 = P test_mesh ! 4" using f[rule_format, of 4] by (simp add: cells off)
  moreover have "P ?m ! 6 = P test_mesh ! 6" using f[rule_format, of 6] by (simp add: cells off)
  moreover have "P ?m ! 11 = P test_mesh ! 11" using f[rule_format, of 11] by (simp add: cells off)
  ultimately show ?thesis using test_first_write fit test_first_cells by simp
qed

end
